theory Spec2Isabelle
  imports Complex_Main
begin

section \<open>The statistics endpoint \<open>GET /api/evals/stats\<close>\<close>

text \<open>
  The route handler reads the authenticated user, parses the \<open>days\<close> query parameter,
  computes a UTC start-of-day threshold, pages through the user's evaluation rows
  (1000 rows per page, offsets below 100000), accumulates running sums and a per-day
  map, and answers with the rounded scalars, the daily series and the score
  distribution.

  Conventions of the embedding.
  \<^item> A JavaScript \<open>Date\<close> is its time value: milliseconds since 1970-01-01T00:00Z as an
    \<open>int\<close>, or \<open>None\<close> for an invalid date (time value NaN). Time values outside
    \<open>\<plusminus>8.64e15\<close> are invalid (\<open>TimeClip\<close>).
  \<^item> A calendar date (\<open>YYYY-MM-DD\<close> in UTC) is the day number \<open>t div 86400000\<close>.
    Both \<open>toISOString().split('T')[0]\<close> and \<open>created_at.slice(0, 10)\<close> render the UTC
    calendar day of an instant (as ten characters for the years 0000 to 9999), so both
    become the day number: two keys are equal exactly when they name the same day.
  \<^item> \<open>created_at\<close> is the instant of the row in milliseconds; \<open>score\<close> is the
    \<open>NUMERIC(5,2)\<close> column as a rational; counters are natural numbers.
  \<^item> Numbers are exact (integers and rationals); IEEE rounding of doubles is not part
    of the embedding.
\<close>

subsection \<open>Rows, query results, accumulators, responses\<close>

record evaluation =
  user_id :: string
  created_at :: int
  score :: rat
  latency_ms :: int
  pii_tokens_redacted :: "int option"

text \<open>The \<open>{ data, error }\<close> pair returned by one awaited page query.\<close>

record query_result =
  data :: "evaluation list option"
  error :: "string option"

text \<open>The \<open>{ data: { user }, error }\<close> pair returned by \<open>supabase.auth.getUser()\<close>.\<close>

record auth_result =
  user :: "string option"
  userError :: "string option"

text \<open>A value of \<open>dailyMap\<close>: \<open>{ count, totalScore, totalLatency }\<close>.\<close>

record day_bucket =
  bucket_count :: nat
  bucket_totalScore :: rat
  bucket_totalLatency :: int

record distribution =
  excellent :: nat
  good :: nat
  fair :: nat
  poor :: nat

text \<open>The mutable locals of the handler that the page loop updates.\<close>

record accum =
  total :: nat
  totalScore :: rat
  totalLatency :: int
  successCount :: nat
  totalPiiRedacted :: int
  scoreDistribution :: distribution
  dailyMap :: "int \<rightharpoonup> day_bucket"

text \<open>An entry of \<open>dailyTrends\<close>: \<open>{ date, count, avgScore, avgLatency }\<close>.\<close>

record trend_point =
  date :: int
  count :: nat
  point_avgScore :: rat
  point_avgLatency :: int

text \<open>The \<open>data\<close> object of a successful response.\<close>

record stats =
  totalEvals :: nat
  avgScore :: rat
  avgLatency :: rat
  successRate :: rat
  statsPiiRedacted :: int
  dailyTrends :: "trend_point list"
  statsDistribution :: distribution

text \<open>
  The error responses of the handler: 401 \<open>Unauthorized\<close>, 500 with the message of the
  failed page query, and 500 \<open>Internal server error\<close> from the \<open>catch\<close> block.
\<close>

datatype http_error = Unauthorized | FetchFailed string | InternalServerError

fun status :: "http_error \<Rightarrow> nat" where
  "status Unauthorized = 401"
| "status (FetchFailed msg) = 500"
| "status InternalServerError = 500"

fun message :: "http_error \<Rightarrow> string" where
  "message Unauthorized = ''Unauthorized''"
| "message (FetchFailed msg) = msg"
| "message InternalServerError = ''Internal server error''"

subsection \<open>Dates\<close>

definition msPerDay :: int where
  "msPerDay = 86400000"

definition maxTime :: int where
  "maxTime = 8640000000000000"

definition TimeClip :: "int \<Rightarrow> int option" where
  "TimeClip t = (if \<bar>t\<bar> \<le> maxTime then Some t else None)"

text \<open>\<open>d.setUTCHours(0, 0, 0, 0)\<close> on a valid date: the start of its UTC day.\<close>

definition setUTCHours0 :: "int \<Rightarrow> int option" where
  "setUTCHours0 t = TimeClip (t - t mod msPerDay)"

text \<open>
  \<open>d.setUTCDate(d.getUTCDate() + k)\<close> on a valid date: the day of the month overflows
  into the neighbouring months, so the time value moves by \<open>k\<close> whole days.
\<close>

definition addUTCDate :: "int \<Rightarrow> int \<Rightarrow> int option" where
  "addUTCDate t k = TimeClip (t + k * msPerDay)"

definition toIsoDate :: "int \<Rightarrow> int" where
  "toIsoDate t = t div msPerDay"

definition dateKeyFromCreatedAt :: "int \<Rightarrow> int" where
  "dateKeyFromCreatedAt createdAt = createdAt div msPerDay"

text \<open>
  \<open>startUtc\<close>: \<open>new Date()\<close>, then \<open>setUTCHours(0,0,0,0)\<close>, then
  \<open>setUTCDate(getUTCDate() - (days - 1))\<close>.
\<close>

definition startUtc :: "int \<Rightarrow> int \<Rightarrow> int option" where
  "startUtc now days =
     (case TimeClip now of None \<Rightarrow> None
      | Some t \<Rightarrow> (case setUTCHours0 t of None \<Rightarrow> None
          | Some t0 \<Rightarrow> addUTCDate t0 (- (days - 1))))"

subsection \<open>The \<open>days\<close> parameter\<close>

text \<open>
  \<open>parseInt(s)\<close> without a radix: leading white space is skipped, one sign is read, a
  \<open>0x\<close>/\<open>0X\<close> prefix selects radix 16, the longest prefix of digits is converted, and an
  empty digit string gives NaN (\<open>None\<close>). A character of a \<open>string\<close> stands for a UTF-16
  code unit below 256. Of the white space that \<open>parseInt\<close> skips these are TAB, LF, VT,
  FF, CR, SP and the no-break space U+00A0; the other Unicode spaces (U+1680, U+2000 to
  U+200A, U+2028, U+2029, U+202F, U+205F, U+3000, U+FEFF) are code units from 256 on,
  which the string type does not hold.
\<close>

definition isWhiteSpace :: "char \<Rightarrow> bool" where
  "isWhiteSpace c =
     (c \<in> set [CHR 0x20, CHR 0x09, CHR 0x0A, CHR 0x0B, CHR 0x0C, CHR 0x0D, CHR 0xA0])"

definition digitValue :: "char \<Rightarrow> nat" where
  "digitValue c =
     (let n = of_char c :: nat in
      if 48 \<le> n \<and> n \<le> 57 then n - 48
      else if 97 \<le> n \<and> n \<le> 102 then n - 87
      else if 65 \<le> n \<and> n \<le> 70 then n - 55
      else 16)"

definition isDigit :: "nat \<Rightarrow> char \<Rightarrow> bool" where
  "isDigit R c = (digitValue c < R)"

definition parseInt :: "string \<Rightarrow> int option" where
  "parseInt str =
     (let s = dropWhile isWhiteSpace str;
          neg = (s \<noteq> [] \<and> hd s = CHR ''-'');
          s1 = (if s \<noteq> [] \<and> (hd s = CHR ''+'' \<or> hd s = CHR ''-'') then tl s else s);
          hex = (take 2 s1 = ''0x'' \<or> take 2 s1 = ''0X'');
          R = (if hex then 16 else 10);
          s2 = (if hex then drop 2 s1 else s1);
          Z = takeWhile (isDigit R) s2
      in if Z = [] then None
         else Some ((if neg then - 1 else 1) * int (foldl (\<lambda>n c. n * R + digitValue c) 0 Z)))"

text \<open>\<open>parseInt(searchParams.get('days') || '7')\<close>: a missing or empty parameter is \<open>'7'\<close>.\<close>

definition parseDays :: "string option \<Rightarrow> int option" where
  "parseDays p =
     parseInt (case p of None \<Rightarrow> ''7'' | Some s \<Rightarrow> if s = [] then ''7'' else s)"

subsection \<open>The page loop\<close>

definition pageSize :: nat where
  "pageSize = 1000"

definition initAccum :: accum where
  "initAccum = \<lparr> total = 0, totalScore = 0, totalLatency = 0, successCount = 0,
                 totalPiiRedacted = 0,
                 scoreDistribution = \<lparr> excellent = 0, good = 0, fair = 0, poor = 0 \<rparr>,
                 dailyMap = Map.empty \<rparr>"

text \<open>The \<open>if / else if\<close> chain that increments one counter of \<open>scoreDistribution\<close>.\<close>

definition classify :: "distribution \<Rightarrow> rat \<Rightarrow> distribution" where
  "classify sd s =
     (if s \<ge> 90 then sd\<lparr> excellent := excellent sd + 1 \<rparr>
      else if s \<ge> 70 then sd\<lparr> good := good sd + 1 \<rparr>
      else if s \<ge> 50 then sd\<lparr> fair := fair sd + 1 \<rparr>
      else sd\<lparr> poor := poor sd + 1 \<rparr>)"

text \<open>The \<open>dailyMap.get(dateKey) || {0, 0, 0}\<close> followed by \<open>dailyMap.set\<close>.\<close>

definition bumpDay :: "(int \<rightharpoonup> day_bucket) \<Rightarrow> evaluation \<Rightarrow> (int \<rightharpoonup> day_bucket)" where
  "bumpDay m e =
     (let dateKey = dateKeyFromCreatedAt (created_at e);
          existing = (case m dateKey of
                        None \<Rightarrow> \<lparr> bucket_count = 0, bucket_totalScore = 0, bucket_totalLatency = 0 \<rparr>
                      | Some b \<Rightarrow> b)
      in m(dateKey \<mapsto> \<lparr> bucket_count = bucket_count existing + 1,
                        bucket_totalScore = bucket_totalScore existing + score e,
                        bucket_totalLatency = bucket_totalLatency existing + latency_ms e \<rparr>))"

text \<open>The body of \<open>for (const e of page)\<close>.\<close>

definition addRow :: "accum \<Rightarrow> evaluation \<Rightarrow> accum" where
  "addRow a e =
     \<lparr> total = total a + 1,
       totalScore = totalScore a + score e,
       totalLatency = totalLatency a + latency_ms e,
       successCount = (if score e \<ge> 70 then successCount a + 1 else successCount a),
       totalPiiRedacted = totalPiiRedacted a
          + (case pii_tokens_redacted e of None \<Rightarrow> 0 | Some n \<Rightarrow> n),
       scoreDistribution = classify (scoreDistribution a) (score e),
       dailyMap = bumpDay (dailyMap a) e \<rparr>"

text \<open>
  \<open>for (let offset = 0; offset < 100000; offset += pageSize)\<close>. The argument \<open>q\<close> is the
  awaited page query as a function of the offset. \<open>Inl msg\<close> is the early return with
  the message of the query error.
\<close>

function pageLoop :: "(nat \<Rightarrow> query_result) \<Rightarrow> nat \<Rightarrow> accum \<Rightarrow> string + accum" where
  "pageLoop q offset a =
     (if offset < 100000 then
        (case error (q offset) of
           Some msg \<Rightarrow> Inl msg
         | None \<Rightarrow>
            (case data (q offset) of
               None \<Rightarrow> Inr a
             | Some page \<Rightarrow>
                 if length page = 0 then Inr a
                 else if length page < pageSize then Inr (foldl addRow a page)
                 else pageLoop q (offset + pageSize) (foldl addRow a page)))
      else Inr a)"
  by pat_completeness auto
termination
  by (relation "measure (\<lambda>(q, offset, a). 100000 - offset)") (auto simp: pageSize_def)

declare pageLoop.simps [simp del]

text \<open>
  The rows the loop body of \<open>pageLoop\<close> runs over, in order: the same control flow,
  collecting each page that is passed to \<open>for (const e of page)\<close>. A page query that
  returns an error, no data or an empty page ends the collection, as does a short page
  after it was collected, and the bound \<open>offset < 100000\<close>.
\<close>

function countedRows :: "(nat \<Rightarrow> query_result) \<Rightarrow> nat \<Rightarrow> evaluation list" where
  "countedRows q offset =
     (if offset < 100000 then
        (case error (q offset) of
           Some msg \<Rightarrow> []
         | None \<Rightarrow>
            (case data (q offset) of
               None \<Rightarrow> []
             | Some page \<Rightarrow>
                 if length page = 0 then []
                 else if length page < pageSize then page
                 else page @ countedRows q (offset + pageSize)))
      else [])"
  by pat_completeness auto
termination
  by (relation "measure (\<lambda>(q, offset). 100000 - offset)") (auto simp: pageSize_def)

declare countedRows.simps [simp del]

subsection \<open>Output construction\<close>

text \<open>
  \<open>x.toFixed(f)\<close> read back by \<open>parseFloat\<close>, and \<open>Math.round\<close>, on exact rationals: ties go
  away from zero in \<open>toFixed\<close> and towards \<open>+\<infinity>\<close> in \<open>Math.round\<close>. The code rounds the
  IEEE double nearest to the quotient, which can fall on the other side of a tie that
  the exact quotient hits (the code gives 28.7 for \<open>23 / 80 * 100\<close>, the exact value
  28.75 rounds to 28.8); the properties below are about counts and sums and do not
  depend on the side a tie falls.
\<close>

definition toFixed :: "nat \<Rightarrow> rat \<Rightarrow> rat" where
  "toFixed f x = sgn x * of_int \<lfloor>\<bar>x\<bar> * 10 ^ f + 1 / 2\<rfloor> / 10 ^ f"

definition Math_round :: "rat \<Rightarrow> int" where
  "Math_round x = \<lfloor>x + 1 / 2\<rfloor>"

text \<open>The callback of \<open>Array.from({ length: days }).map\<close> for a valid \<open>day\<close>.\<close>

definition trendPoint :: "(int \<rightharpoonup> day_bucket) \<Rightarrow> int \<Rightarrow> trend_point" where
  "trendPoint m day =
     (let d = toIsoDate day in
      case m d of
        None \<Rightarrow> \<lparr> date = d, count = 0, point_avgScore = 0, point_avgLatency = 0 \<rparr>
      | Some b \<Rightarrow>
          if bucket_count b = 0
          then \<lparr> date = d, count = 0, point_avgScore = 0, point_avgLatency = 0 \<rparr>
          else \<lparr> date = d, count = bucket_count b,
                 point_avgScore = toFixed 1 (bucket_totalScore b / of_nat (bucket_count b)),
                 point_avgLatency =
                   Math_round (of_int (bucket_totalLatency b) / of_nat (bucket_count b)) \<rparr>)"

text \<open>
  The series: one point per index below \<open>days\<close> (none when \<open>days \<le> 0\<close>). An invalid
  \<open>day\<close> makes \<open>toISOString\<close> throw, which is \<open>None\<close> here.
\<close>

definition buildDailyTrends :: "int \<Rightarrow> int \<Rightarrow> (int \<rightharpoonup> day_bucket) \<Rightarrow> trend_point list option" where
  "buildDailyTrends start days m =
     those (map (\<lambda>idx. map_option (trendPoint m) (addUTCDate start (int idx))) [0..<nat days])"

definition buildStats :: "accum \<Rightarrow> trend_point list \<Rightarrow> stats" where
  "buildStats a trends =
     (let avgScore = (if total a > 0 then totalScore a / of_nat (total a) else 0);
          avgLatency = (if total a > 0 then of_int (totalLatency a) / of_nat (total a) else 0);
          successRate = (if total a > 0
                         then (of_nat (successCount a) / of_nat (total a)) * 100 else 0)
      in \<lparr> totalEvals = total a,
           avgScore = toFixed 1 avgScore,
           avgLatency = toFixed 0 avgLatency,
           successRate = toFixed 1 successRate,
           statsPiiRedacted = totalPiiRedacted a,
           dailyTrends = trends,
           statsDistribution = scoreDistribution a \<rparr>)"

subsection \<open>The handler\<close>

text \<open>
  \<open>fetchPage uid start offset\<close> is the query
  \<open>.eq('user_id', uid).gte('created_at', start).order('created_at').range(offset, offset + 999)\<close>.
  An invalid \<open>startUtc\<close> (also from \<open>days = NaN\<close>) throws in \<open>startUtc.toISOString()\<close> of
  the first query and ends in the \<open>catch\<close> block.
\<close>

definition GET ::
  "auth_result \<Rightarrow> string option \<Rightarrow> int \<Rightarrow> (string \<Rightarrow> int \<Rightarrow> nat \<Rightarrow> query_result)
     \<Rightarrow> http_error + stats" where
  "GET auth daysParam now fetchPage =
     (if userError auth \<noteq> None \<or> user auth = None then Inl Unauthorized
      else
        case parseDays daysParam of
          None \<Rightarrow> Inl InternalServerError
        | Some days \<Rightarrow>
            (case startUtc now days of
               None \<Rightarrow> Inl InternalServerError
             | Some start \<Rightarrow>
                 (case pageLoop (fetchPage (the (user auth)) start) 0 initAccum of
                    Inl msg \<Rightarrow> Inl (FetchFailed msg)
                  | Inr a \<Rightarrow>
                      (case buildDailyTrends start days (dailyMap a) of
                         None \<Rightarrow> Inl InternalServerError
                       | Some trends \<Rightarrow> Inr (buildStats a trends)))))"

subsection \<open>The backing store\<close>

text \<open>
  The hosted database behind the page query: the table of evaluation rows of all
  tenants, and for each offset the error (if any) with which the query at that offset
  fails. A query that does not fail returns the rows of the tenant at or after the
  threshold, ordered by \<open>created_at\<close> (rows with equal \<open>created_at\<close> in table order, the
  same order for every page), cut to the requested range of 1000 rows.
\<close>

record store =
  rows :: "evaluation list"
  fault :: "nat \<Rightarrow> string option"

definition matching :: "string \<Rightarrow> int \<Rightarrow> evaluation list \<Rightarrow> evaluation list" where
  "matching uid start rs = filter (\<lambda>e. user_id e = uid \<and> start \<le> created_at e) rs"

definition storeQuery :: "store \<Rightarrow> string \<Rightarrow> int \<Rightarrow> nat \<Rightarrow> query_result" where
  "storeQuery st uid start offset =
     (case fault st offset of
        Some msg \<Rightarrow> \<lparr> data = None, error = Some msg \<rparr>
      | None \<Rightarrow>
          \<lparr> data = Some (take pageSize (drop offset
                      (sort_key created_at (matching uid start (rows st))))),
            error = None \<rparr>)"

subsection \<open>Direct aggregation\<close>

text \<open>
  The reference the page loop is compared with: every total computed in one pass over
  a list of rows, field by field, without pages. \<open>piiOf\<close> is \<open>pii_tokens_redacted\<close> with
  null read as 0; \<open>dayRows k\<close> are the rows of calendar day \<open>k\<close>.
\<close>

definition piiOf :: "evaluation \<Rightarrow> int" where
  "piiOf e = (case pii_tokens_redacted e of None \<Rightarrow> 0 | Some n \<Rightarrow> n)"

definition dayRows :: "int \<Rightarrow> evaluation list \<Rightarrow> evaluation list" where
  "dayRows k xs = filter (\<lambda>e. dateKeyFromCreatedAt (created_at e) = k) xs"

definition directAggregate :: "evaluation list \<Rightarrow> accum" where
  "directAggregate xs =
     \<lparr> total = length xs,
       totalScore = sum_list (map score xs),
       totalLatency = sum_list (map latency_ms xs),
       successCount = length (filter (\<lambda>e. score e \<ge> 70) xs),
       totalPiiRedacted = sum_list (map piiOf xs),
       scoreDistribution =
         \<lparr> excellent = length (filter (\<lambda>e. score e \<ge> 90) xs),
           good = length (filter (\<lambda>e. 70 \<le> score e \<and> score e < 90) xs),
           fair = length (filter (\<lambda>e. 50 \<le> score e \<and> score e < 70) xs),
           poor = length (filter (\<lambda>e. score e < 50) xs) \<rparr>,
       dailyMap = (\<lambda>k. if dayRows k xs = [] then None
                       else Some \<lparr> bucket_count = length (dayRows k xs),
                                   bucket_totalScore = sum_list (map score (dayRows k xs)),
                                   bucket_totalLatency =
                                     sum_list (map latency_ms (dayRows k xs)) \<rparr>) \<rparr>"

text \<open>The daily series for a valid start: the point of day \<open>start + idx\<close> for each index.\<close>

definition seriesOf :: "int \<Rightarrow> int \<Rightarrow> (int \<rightharpoonup> day_bucket) \<Rightarrow> trend_point list" where
  "seriesOf start days m =
     map (\<lambda>idx. trendPoint m (start + int idx * msPerDay)) [0..<nat days]"

section \<open>The request cache\<close>

text \<open>
  The client-side cache is imported by the pages as \<open>@/lib/cache\<close>
  (\<open>cachedFetch\<close>, \<open>clearCache\<close>, \<open>CachedResponse\<close>); the module itself is not among the
  sources. Its state is the map of stored entries; \<open>networkCalls\<close> logs the keys for
  which the transport was invoked, in order. Calls are sequential here, so no request
  is in flight when another starts.
\<close>

record request_options =
  req_method :: "string option"
  req_body :: "string option"

record http_response =
  resp_status :: nat
  resp_ok :: bool
  resp_text :: string

record cache_entry =
  payload :: http_response
  expiresAt :: int

record cache =
  entries :: "(string \<times> string \<times> string) \<rightharpoonup> cache_entry"
  networkCalls :: "(string \<times> string \<times> string) list"

record cached_response =
  response :: http_response
  fromCache :: bool

text \<open>
  Modelled from the spec: the cache key of \<open>lib/cache\<close>, "canonicalized
  \<open>(method, url, body)\<close> tuple; default method is read (GET)-equivalent".
\<close>

definition cacheKey :: "string \<Rightarrow> request_options option \<Rightarrow> string \<times> string \<times> string" where
  "cacheKey url options =
     (case options of
        None \<Rightarrow> (''GET'', url, [])
      | Some opts \<Rightarrow>
          ((case req_method opts of None \<Rightarrow> ''GET'' | Some m \<Rightarrow> m), url,
           (case req_body opts of None \<Rightarrow> [] | Some b \<Rightarrow> b)))"

text \<open>
  Modelled from the spec: \<open>cachedFetch(url, options, ttlMs)\<close> of \<open>lib/cache\<close>. A TTL of
  0 or negative behaves as "never cache" (always fetch). Otherwise a valid entry
  (\<open>now < expiresAt\<close>) is returned with \<open>fromCache = true\<close> and no network access; an
  expired entry is treated as absent; else the network call is performed, and on
  success \<open>{payload, expiresAt: now + ttlMs}\<close> is stored; a response with a non-success
  status is returned but not persisted; a failed call (\<open>None\<close>) is not cached and is
  propagated.
\<close>

definition cachedFetch ::
  "((string \<times> string \<times> string) \<Rightarrow> http_response option) \<Rightarrow> int \<Rightarrow> string
     \<Rightarrow> request_options option \<Rightarrow> int \<Rightarrow> cache \<Rightarrow> cached_response option \<times> cache" where
  "cachedFetch network now url options ttlMs c =
     (let key = cacheKey url options;
          called = c\<lparr> networkCalls := networkCalls c @ [key] \<rparr>;
          fresh = map_option (\<lambda>r. \<lparr> response = r, fromCache = False \<rparr>) (network key)
      in if ttlMs \<le> 0 then (fresh, called)
         else
           case (case entries c key of
                   None \<Rightarrow> None
                 | Some e \<Rightarrow> if now < expiresAt e then Some e else None) of
             Some e \<Rightarrow> (Some \<lparr> response = payload e, fromCache = True \<rparr>, c)
           | None \<Rightarrow>
               (case network key of
                  None \<Rightarrow> (None, called)
                | Some r \<Rightarrow>
                    (fresh,
                     if resp_ok r
                     then called\<lparr> entries := (entries c)(key \<mapsto>
                                    \<lparr> payload = r, expiresAt = now + ttlMs \<rparr>) \<rparr>
                     else called)))"

section \<open>Sample inputs\<close>

text \<open>
  A signed-in user, a clock value on day 10 (100 ms after midnight UTC), a small table
  with rows of two tenants, and tables of \<open>n\<close> equal rows.
\<close>

definition alice :: auth_result where
  "alice = \<lparr> user = Some ''alice'', userError = None \<rparr>"

definition now0 :: int where
  "now0 = 864000100"

definition mkRow :: "string \<Rightarrow> int \<Rightarrow> rat \<Rightarrow> int \<Rightarrow> evaluation" where
  "mkRow u t s l =
     \<lparr> user_id = u, created_at = t, score = s, latency_ms = l, pii_tokens_redacted = None \<rparr>"

definition noFault :: "nat \<Rightarrow> string option" where
  "noFault offset = None"

definition demoRows :: "evaluation list" where
  "demoRows = [mkRow ''alice'' 864000005 80 100, mkRow ''alice'' 864000006 90 200,
               mkRow ''alice'' 864000007 70 300, mkRow ''bob'' 864000008 10 400]"

definition demoStore :: store where
  "demoStore = \<lparr> rows = demoRows, fault = noFault \<rparr>"

definition uniformStore :: "nat \<Rightarrow> (nat \<Rightarrow> string option) \<Rightarrow> store" where
  "uniformStore n f = \<lparr> rows = replicate n (mkRow ''alice'' 864000005 80 100), fault = f \<rparr>"

text \<open>The answer to \<open>days=3\<close> at \<open>now0\<close> over \<open>demoStore\<close> for the signed-in user.\<close>

definition demoResponse :: stats where
  "demoResponse =
     \<lparr> totalEvals = 3, avgScore = 80, avgLatency = 200, successRate = 100,
       statsPiiRedacted = 0,
       dailyTrends = [\<lparr> date = 8, count = 0, point_avgScore = 0, point_avgLatency = 0 \<rparr>,
                      \<lparr> date = 9, count = 0, point_avgScore = 0, point_avgLatency = 0 \<rparr>,
                      \<lparr> date = 10, count = 3, point_avgScore = 80, point_avgLatency = 200 \<rparr>],
       statsDistribution = \<lparr> excellent = 1, good = 2, fair = 0, poor = 0 \<rparr> \<rparr>"

text \<open>
  Tables with one row of the user: one second after \<open>now0\<close> on the same day, and one day
  after \<open>now0\<close>. The demo table with rows of further tenants added. A fault that makes
  the query at one offset fail.
\<close>

definition lateStore :: store where
  "lateStore = \<lparr> rows = [mkRow ''alice'' 864001100 80 100], fault = noFault \<rparr>"

definition tomorrowStore :: store where
  "tomorrowStore = \<lparr> rows = [mkRow ''alice'' 950400100 80 100], fault = noFault \<rparr>"

definition crowdedStore :: store where
  "crowdedStore =
     \<lparr> rows = mkRow ''bob'' 864000001 5 900 # demoRows @ [mkRow ''carol'' 864000009 99 1],
       fault = noFault \<rparr>"

definition failAt :: "nat \<Rightarrow> string \<Rightarrow> nat \<Rightarrow> string option" where
  "failAt k msg offset = (if offset = k then Some msg else None)"

text \<open>
  A transport that always answers 200 with the body \<open>fresh\<close>, and a cache that holds an
  entry for \<open>GET /api/config\<close> valid until time 2000.
\<close>

definition freshNetwork :: "(string \<times> string \<times> string) \<Rightarrow> http_response option" where
  "freshNetwork key = Some \<lparr> resp_status = 200, resp_ok = True, resp_text = ''fresh'' \<rparr>"

definition warmCache :: cache where
  "warmCache =
     \<lparr> entries = [cacheKey ''/api/config'' None \<mapsto>
                    \<lparr> payload = \<lparr> resp_status = 200, resp_ok = True, resp_text = ''stored'' \<rparr>,
                      expiresAt = 2000 \<rparr>],
       networkCalls = [] \<rparr>"

text \<open>
  The answers of the handler for \<open>days=1\<close> at \<open>now0\<close> over \<open>lateStore\<close>, over
  \<open>tomorrowStore\<close> and over a table of 100001 equal rows, and for \<open>days=-5\<close> over
  \<open>demoStore\<close>.
\<close>

definition lateResponse :: stats where
  "lateResponse =
     \<lparr> totalEvals = 1, avgScore = 80, avgLatency = 100, successRate = 100,
       statsPiiRedacted = 0,
       dailyTrends = [\<lparr> date = 10, count = 1, point_avgScore = 80, point_avgLatency = 100 \<rparr>],
       statsDistribution = \<lparr> excellent = 0, good = 1, fair = 0, poor = 0 \<rparr> \<rparr>"

definition tomorrowResponse :: stats where
  "tomorrowResponse =
     \<lparr> totalEvals = 1, avgScore = 80, avgLatency = 100, successRate = 100,
       statsPiiRedacted = 0,
       dailyTrends = [\<lparr> date = 10, count = 0, point_avgScore = 0, point_avgLatency = 0 \<rparr>],
       statsDistribution = \<lparr> excellent = 0, good = 1, fair = 0, poor = 0 \<rparr> \<rparr>"

definition ceilingResponse :: stats where
  "ceilingResponse =
     \<lparr> totalEvals = 100000, avgScore = 80, avgLatency = 100, successRate = 100,
       statsPiiRedacted = 0,
       dailyTrends = [\<lparr> date = 10, count = 100000, point_avgScore = 80, point_avgLatency = 100 \<rparr>],
       statsDistribution = \<lparr> excellent = 0, good = 100000, fair = 0, poor = 0 \<rparr> \<rparr>"

definition emptyResponse :: stats where
  "emptyResponse =
     \<lparr> totalEvals = 0, avgScore = 0, avgLatency = 0, successRate = 0,
       statsPiiRedacted = 0, dailyTrends = [],
       statsDistribution = \<lparr> excellent = 0, good = 0, fair = 0, poor = 0 \<rparr> \<rparr>"

text \<open>
  A table of the user with scores on and next to the bucket boundaries, and the answer
  to \<open>days=1\<close> at \<open>now0\<close> over it.
\<close>

definition bandRows :: "evaluation list" where
  "bandRows = [mkRow ''alice'' 864000001 90 100, mkRow ''alice'' 864000002 (8999 / 100) 100,
               mkRow ''alice'' 864000003 70 100, mkRow ''alice'' 864000004 (6999 / 100) 100,
               mkRow ''alice'' 864000005 50 100, mkRow ''alice'' 864000006 (4999 / 100) 100,
               mkRow ''alice'' 864000007 0 100, mkRow ''alice'' 864000008 100 100]"

definition bandStore :: store where
  "bandStore = \<lparr> rows = bandRows, fault = noFault \<rparr>"

definition bandResponse :: stats where
  "bandResponse =
     \<lparr> totalEvals = 8, avgScore = 65, avgLatency = 100, successRate = 50,
       statsPiiRedacted = 0,
       dailyTrends = [\<lparr> date = 10, count = 8, point_avgScore = 65, point_avgLatency = 100 \<rparr>],
       statsDistribution = \<lparr> excellent = 2, good = 2, fair = 2, poor = 2 \<rparr> \<rparr>"

section \<open>Properties of the aggregation\<close>

subsection \<open>The page loop\<close>

lemma pageLoop_processed:
  "pageLoop q off a = Inr a' \<Longrightarrow>
     \<exists>xs. a' = foldl addRow a xs \<and>
          (\<forall>e \<in> set xs. \<exists>off' page.
              error (q off') = None \<and> data (q off') = Some page \<and> e \<in> set page)"
proof (induction q off a rule: pageLoop.induct)
  case (1 q offset a)
  show ?case
  proof (cases "offset < 100000")
    case False
    with "1.prems" have "a' = a" by (simp add: pageLoop.simps)
    then have "a' = foldl addRow a []" by simp
    then show ?thesis by fastforce
  next
    case lt: True
    show ?thesis
    proof (cases "error (q offset)")
      case (Some msg)
      with lt "1.prems" show ?thesis by (simp add: pageLoop.simps)
    next
      case noerr: None
      show ?thesis
      proof (cases "data (q offset)")
        case None
        with lt noerr "1.prems" have "a' = foldl addRow a []" by (simp add: pageLoop.simps)
        then show ?thesis by fastforce
      next
        case (Some page)
        show ?thesis
        proof (cases "length page = 0")
          case True
          with lt noerr Some "1.prems" have "a' = foldl addRow a []" by (simp add: pageLoop.simps)
          then show ?thesis by fastforce
        next
          case ne: False
          show ?thesis
          proof (cases "length page < pageSize")
            case True
            with lt noerr Some ne "1.prems" have "a' = foldl addRow a page"
              by (simp add: pageLoop.simps)
            with noerr Some show ?thesis by blast
          next
            case full: False
            with lt noerr Some ne "1.prems"
            have rec: "pageLoop q (offset + pageSize) (foldl addRow a page) = Inr a'"
              by (simp add: pageLoop.simps)
            from "1.IH"[OF lt noerr Some ne full rec]
            obtain ys where ys: "a' = foldl addRow (foldl addRow a page) ys"
              and src: "\<forall>e \<in> set ys. \<exists>off' page.
                  error (q off') = None \<and> data (q off') = Some page \<and> e \<in> set page"
              by blast
            have "a' = foldl addRow a (page @ ys)" using ys by simp
            moreover have "\<forall>e \<in> set (page @ ys). \<exists>off' page.
                error (q off') = None \<and> data (q off') = Some page \<and> e \<in> set page"
              using src noerr Some by auto
            ultimately show ?thesis by blast
          qed
        qed
      qed
    qed
  qed
qed

lemma pageLoop_store:
  assumes nf: "\<And>off. fault st off = None"
  shows "pageSize dvd off \<Longrightarrow> off \<le> 100000 \<Longrightarrow>
     pageLoop (storeQuery st uid start) off a =
       Inr (foldl addRow a (take (100000 - off) (drop off
              (sort_key created_at (matching uid start (rows st))))))"
proof (induction "100000 - off" arbitrary: off a rule: less_induct)
  case less
  define xs where "xs = sort_key created_at (matching uid start (rows st))"
  have q: "storeQuery st uid start off
      = \<lparr> data = Some (take pageSize (drop off xs)), error = None \<rparr>" for off
    by (simp add: storeQuery_def nf xs_def)
  show ?case
  proof (cases "off < 100000")
    case False
    then show ?thesis by (simp add: pageLoop.simps)
  next
    case lt: True
    from less.prems lt have room: "pageSize \<le> 100000 - off"
      by (auto simp: pageSize_def dvd_def)
    let ?page = "take pageSize (drop off xs)"
    show ?thesis
    proof (cases "length ?page = 0")
      case True
      then have "drop off xs = []" by (auto simp: pageSize_def)
      with lt True show ?thesis
        by (subst pageLoop.simps) (simp add: q flip: xs_def)
    next
      case ne: False
      show ?thesis
      proof (cases "length ?page < pageSize")
        case True
        then have all: "?page = drop off xs" by (simp add: min_def split: if_splits)
        from True have "length (drop off xs) < pageSize" by (simp only: all)
        with room have "take (100000 - off) (drop off xs) = drop off xs" by simp
        with lt ne True all show ?thesis
          by (subst pageLoop.simps) (simp add: q flip: xs_def)
      next
        case full: False
        have dv: "pageSize dvd off + pageSize" using less.prems by simp
        have le: "off + pageSize \<le> 100000" using room lt by simp
        have m: "100000 - (off + pageSize) < 100000 - off" using lt by (simp add: pageSize_def)
        have split: "take (100000 - off) (drop off xs) =
            ?page @ take (100000 - (off + pageSize)) (drop (off + pageSize) xs)"
        proof -
          have "100000 - off = pageSize + (100000 - (off + pageSize))" using room by simp
          then show ?thesis by (simp only: take_add drop_drop add.commute)
        qed
        from lt ne full show ?thesis
          by (subst pageLoop.simps)
             (simp add: q less.hyps[OF m dv le] split flip: xs_def)
      qed
    qed
  qed
qed

subsection \<open>The loop body against direct aggregation\<close>

lemma initAccum_direct: "initAccum = directAggregate []"
  by (simp add: initAccum_def directAggregate_def dayRows_def)

lemma addRow_direct: "addRow (directAggregate xs) e = directAggregate (xs @ [e])"
  by (auto simp: addRow_def directAggregate_def classify_def bumpDay_def dayRows_def piiOf_def
        Let_def fun_eq_iff)

lemma foldl_addRow_direct: "foldl addRow (directAggregate xs) ys = directAggregate (xs @ ys)"
proof (induction ys arbitrary: xs)
  case Nil
  show ?case by simp
next
  case (Cons y ys)
  have "foldl addRow (directAggregate xs) (y # ys) = foldl addRow (directAggregate (xs @ [y])) ys"
    by (simp add: addRow_direct)
  also have "\<dots> = directAggregate ((xs @ [y]) @ ys)" by (rule Cons.IH)
  finally show ?case by simp
qed

lemma foldl_initAccum: "foldl addRow initAccum xs = directAggregate xs"
  using foldl_addRow_direct[of "[]" xs] by (simp add: initAccum_direct)

lemma sum_list_insort_key:
  fixes g :: "'a \<Rightarrow> 'b :: comm_monoid_add"
  shows "sum_list (map g (insort_key f x xs)) = g x + sum_list (map g xs)"
  by (induction xs) (auto simp: add.left_commute)

lemma sum_list_sort_key:
  fixes g :: "'a \<Rightarrow> 'b :: comm_monoid_add"
  shows "sum_list (map g (sort_key f xs)) = sum_list (map g xs)"
  by (induction xs) (auto simp: sum_list_insort_key)

lemma length_filter_sort_key: "length (filter P (sort_key f xs)) = length (filter P xs)"
  by (simp add: filter_sort)

lemma dayRows_sort_key: "dayRows k (sort_key f xs) = sort_key f (dayRows k xs)"
  by (simp add: dayRows_def filter_sort)

lemma sort_key_Nil_iff: "sort_key f xs = [] \<longleftrightarrow> xs = []"
  by (metis length_sort length_0_conv)

lemma directAggregate_sort_key: "directAggregate (sort_key f xs) = directAggregate xs"
  by (simp add: directAggregate_def sum_list_sort_key length_filter_sort_key dayRows_sort_key
        sort_key_Nil_iff cong: if_cong)

subsection \<open>Dates\<close>

lemma startUtc_Some:
  assumes "startUtc now d = Some start"
  shows "start = (now div msPerDay - (d - 1)) * msPerDay"
    and "\<bar>now\<bar> \<le> maxTime" and "\<bar>start\<bar> \<le> maxTime"
proof -
  have eq: "now - now mod msPerDay = now div msPerDay * msPerDay"
    by (simp add: minus_mod_eq_div_mult)
  from assms show "\<bar>now\<bar> \<le> maxTime"
    by (auto simp: startUtc_def TimeClip_def split: if_splits option.splits)
  from assms show "start = (now div msPerDay - (d - 1)) * msPerDay"
    by (auto simp: startUtc_def TimeClip_def setUTCHours0_def addUTCDate_def eq algebra_simps
          split: if_splits option.splits)
  from assms show "\<bar>start\<bar> \<le> maxTime"
    by (auto simp: startUtc_def TimeClip_def setUTCHours0_def addUTCDate_def
          split: if_splits option.splits)
qed

lemma toIsoDate_start:
  assumes "startUtc now d = Some start"
  shows "toIsoDate (start + int i * msPerDay) = toIsoDate now - (d - 1) + int i"
proof -
  have "start + int i * msPerDay = (now div msPerDay - (d - 1) + int i) * msPerDay"
    by (simp add: startUtc_Some(1)[OF assms] algebra_simps)
  then show ?thesis by (simp add: toIsoDate_def msPerDay_def)
qed

lemma addUTCDate_valid:
  assumes "startUtc now d = Some start" and "i < nat d"
  shows "addUTCDate start (int i) = Some (start + int i * msPerDay)"
proof -
  have s: "start = (now div msPerDay - (d - 1)) * msPerDay" by (rule startUtc_Some(1)[OF assms(1)])
  have lo: "- maxTime \<le> start" using startUtc_Some(3)[OF assms(1)] by simp
  have "now div msPerDay * msPerDay \<le> now" by (simp add: msPerDay_def)
  moreover have "now \<le> maxTime" using startUtc_Some(2)[OF assms(1)] by simp
  moreover have "start + int i * msPerDay \<le> now div msPerDay * msPerDay"
  proof -
    have "int i \<le> d - 1" using assms(2) by simp
    then have "(now div msPerDay - (d - 1) + int i) * msPerDay \<le> now div msPerDay * msPerDay"
      by (simp add: msPerDay_def)
    then show ?thesis by (simp add: s algebra_simps)
  qed
  ultimately have hi: "start + int i * msPerDay \<le> maxTime" by linarith
  have "0 \<le> int i * msPerDay" by (simp add: msPerDay_def)
  with lo have "- maxTime \<le> start + int i * msPerDay" by linarith
  with hi show ?thesis by (simp add: addUTCDate_def TimeClip_def)
qed

lemma those_map_Some: "those (map (\<lambda>x. Some (f x)) xs) = Some (map f xs)"
  by (induction xs) simp_all

lemma buildDailyTrends_valid:
  assumes "startUtc now d = Some start"
  shows "buildDailyTrends start d m = Some (seriesOf start d m)"
proof -
  have eq: "map (\<lambda>idx. map_option (trendPoint m) (addUTCDate start (int idx))) [0..<nat d]
      = map (\<lambda>idx. Some (trendPoint m (start + int idx * msPerDay))) [0..<nat d]"
    by (rule map_cong) (simp_all add: addUTCDate_valid[OF assms])
  show ?thesis unfolding buildDailyTrends_def seriesOf_def eq by (rule those_map_Some)
qed

subsection \<open>The handler in terms of the page loop\<close>

lemma GET_authorized:
  assumes "user auth = Some uid" and "userError auth = None"
      and "parseDays daysParam = Some d" and "startUtc now d = Some start"
  shows "GET auth daysParam now q =
     (case pageLoop (q uid start) 0 initAccum of
        Inl msg \<Rightarrow> Inl (FetchFailed msg)
      | Inr a \<Rightarrow> Inr (buildStats a (seriesOf start d (dailyMap a))))"
  using assms by (simp add: GET_def buildDailyTrends_valid split: sum.splits)

lemma GET_Inr_D:
  assumes "GET auth daysParam now q = Inr r"
  obtains uid d start a where "user auth = Some uid" and "userError auth = None"
    and "parseDays daysParam = Some d" and "startUtc now d = Some start"
    and "pageLoop (q uid start) 0 initAccum = Inr a"
    and "r = buildStats a (seriesOf start d (dailyMap a))"
proof -
  from assms obtain uid where u: "user auth = Some uid" "userError auth = None"
    by (auto simp: GET_def split: if_splits)
  from assms u obtain d where d: "parseDays daysParam = Some d"
    by (auto simp: GET_def split: option.splits)
  from assms u d obtain start where s: "startUtc now d = Some start"
    by (auto simp: GET_def split: option.splits)
  from assms have "(case pageLoop (q uid start) 0 initAccum of
        Inl msg \<Rightarrow> Inl (FetchFailed msg)
      | Inr a \<Rightarrow> Inr (buildStats a (seriesOf start d (dailyMap a)))) = Inr r"
    by (simp add: GET_authorized[OF u d s])
  then obtain a where "pageLoop (q uid start) 0 initAccum = Inr a"
    "r = buildStats a (seriesOf start d (dailyMap a))"
    by (auto split: sum.splits)
  with u d s that show thesis by blast
qed

subsection \<open>Processed rows and the daily series\<close>

lemma storeQuery_page_subset:
  assumes "data (storeQuery st uid start off) = Some page"
  shows "set page \<subseteq> set (matching uid start (rows st))"
proof -
  from assms have "page = take pageSize (drop off (sort_key created_at (matching uid start (rows st))))"
    by (auto simp: storeQuery_def split: option.splits)
  then have "set page \<subseteq> set (sort_key created_at (matching uid start (rows st)))"
    by (metis set_take_subset set_drop_subset subset_trans)
  then show ?thesis by simp
qed

lemma pageLoop_direct:
  assumes "pageLoop q 0 initAccum = Inr a"
  obtains xs where "a = directAggregate xs"
    and "\<And>e. e \<in> set xs \<Longrightarrow> \<exists>off page. data (q off) = Some page \<and> e \<in> set page"
proof -
  from pageLoop_processed[OF assms] obtain xs where
    a: "a = foldl addRow initAccum xs" and
    src: "\<forall>e \<in> set xs. \<exists>off' page. error (q off') = None \<and> data (q off') = Some page \<and> e \<in> set page"
    by blast
  have "a = directAggregate xs" using a foldl_addRow_direct[of "[]" xs] by (simp add: initAccum_direct)
  moreover have "\<And>e. e \<in> set xs \<Longrightarrow> \<exists>off page. data (q off) = Some page \<and> e \<in> set page"
    using src by blast
  ultimately show thesis using that by blast
qed

lemma pageLoop_store_direct:
  assumes "pageLoop (storeQuery st uid start) 0 initAccum = Inr a"
  obtains xs where "a = directAggregate xs" and "set xs \<subseteq> set (matching uid start (rows st))"
proof -
  from pageLoop_direct[OF assms] obtain xs where a: "a = directAggregate xs"
    and src: "\<And>e. e \<in> set xs \<Longrightarrow> \<exists>off page. data (storeQuery st uid start off) = Some page \<and> e \<in> set page"
    by blast
  have "set xs \<subseteq> set (matching uid start (rows st))"
  proof
    fix e assume "e \<in> set xs"
    from src[OF this] obtain off page where "data (storeQuery st uid start off) = Some page" "e \<in> set page"
      by blast
    with storeQuery_page_subset show "e \<in> set (matching uid start (rows st))" by blast
  qed
  with a that show thesis by blast
qed

lemma date_trendPoint: "date (trendPoint m day) = toIsoDate day"
  by (simp add: trendPoint_def Let_def split: option.splits)

lemma trendPoint_empty:
  "m (toIsoDate day) = None \<Longrightarrow>
     trendPoint m day = \<lparr> date = toIsoDate day, count = 0, point_avgScore = 0, point_avgLatency = 0 \<rparr>"
  by (simp add: trendPoint_def Let_def)

lemma dailyTrends_buildStats: "dailyTrends (buildStats a ts) = ts"
  by (simp add: buildStats_def Let_def)

lemma length_seriesOf: "length (seriesOf start d m) = nat d"
  by (simp add: seriesOf_def)

lemma nth_seriesOf: "i < nat d \<Longrightarrow> seriesOf start d m ! i = trendPoint m (start + int i * msPerDay)"
  by (simp add: seriesOf_def)

lemma dailyMap_direct_None: "dayRows k xs = [] \<Longrightarrow> dailyMap (directAggregate xs) k = None"
  by (simp add: directAggregate_def)

subsection \<open>The handler over a table whose queries do not fail\<close>

lemma GET_store:
  assumes "user auth = Some uid" and "userError auth = None"
      and "parseDays daysParam = Some d" and "startUtc now d = Some start"
      and nf: "\<And>off. fault st off = None"
      and a: "a = directAggregate (take 100000 (sort_key created_at (matching uid start (rows st))))"
  shows "GET auth daysParam now (storeQuery st) = Inr (buildStats a (seriesOf start d (dailyMap a)))"
proof -
  have "pageLoop (storeQuery st uid start) 0 initAccum = Inr a"
    using pageLoop_store[of st 0 uid start initAccum, OF nf] foldl_addRow_direct[of "[]"]
    by (simp add: a initAccum_direct)
  then show ?thesis by (simp add: GET_authorized[OF assms(1-4)])
qed

lemma parseDays_3: "parseDays (Some ''3'') = Some 3"
  by (simp add: parseDays_def parseInt_def isWhiteSpace_def isDigit_def digitValue_def)

lemma startUtc_now0_3: "startUtc now0 3 = Some 691200000"
  by (simp add: now0_def startUtc_def TimeClip_def setUTCHours0_def addUTCDate_def msPerDay_def maxTime_def)

lemma floor_rat_numeral: "\<lfloor>numeral a / numeral b :: rat\<rfloor> = numeral a div numeral b"
  by (metis floor_divide_of_int_eq of_int_numeral)

lemma floor_rat_one: "\<lfloor>1 / numeral b :: rat\<rfloor> = 1 div numeral b"
  by (metis floor_divide_of_int_eq of_int_numeral of_int_1)

lemmas eval_defs = floor_rat_numeral floor_rat_one matching_def mkRow_def directAggregate_def dayRows_def piiOf_def
  dateKeyFromCreatedAt_def msPerDay_def seriesOf_def trendPoint_def toIsoDate_def buildStats_def
  toFixed_def Math_round_def upt_conv_Cons

lemma demo_GET: "GET alice (Some ''3'') now0 (storeQuery demoStore) = Inr demoResponse"
  by (subst GET_store[OF _ _ parseDays_3 startUtc_now0_3, of alice "''alice''" demoStore, OF _ _ _ refl])
     (simp_all add: alice_def demoStore_def demoRows_def noFault_def demoResponse_def eval_defs)

subsection \<open>Whole tables, full pages, tables of equal rows\<close>

lemma pageLoop_store_all:
  assumes nf: "\<And>off. fault st off = None"
    and le: "length (matching uid start (rows st)) \<le> 100000"
  shows "pageLoop (storeQuery st uid start) 0 initAccum =
           Inr (directAggregate (matching uid start (rows st)))"
proof -
  let ?xs = "sort_key created_at (matching uid start (rows st))"
  have "take 100000 ?xs = ?xs" using le by simp
  then have "pageLoop (storeQuery st uid start) 0 initAccum = Inr (foldl addRow initAccum ?xs)"
    using pageLoop_store[of st 0 uid start initAccum, OF nf] by simp
  also have "foldl addRow initAccum ?xs = directAggregate ?xs"
    using foldl_addRow_direct[of "[]" ?xs] by (simp add: initAccum_direct)
  also have "\<dots> = directAggregate (matching uid start (rows st))"
    by (rule directAggregate_sort_key)
  finally show ?thesis .
qed

lemma pageLoop_full_pages:
  assumes full: "\<And>j. j < 100 \<Longrightarrow> error (q (j * pageSize)) = None \<and>
                    data (q (j * pageSize)) = Some (pg j) \<and> pageSize \<le> length (pg j)"
  shows "j0 \<le> 100 \<Longrightarrow>
     pageLoop q (j0 * pageSize) a = Inr (foldl addRow a (concat (map pg [j0..<100])))"
proof (induction "100 - j0" arbitrary: j0 a)
  case 0
  then have "j0 = 100" by simp
  then show ?case by (simp add: pageLoop.simps pageSize_def)
next
  case (Suc n)
  then have lt: "j0 < 100" by simp
  from full[OF lt] have e: "error (q (j0 * pageSize)) = None"
    and p: "data (q (j0 * pageSize)) = Some (pg j0)" and l: "pageSize \<le> length (pg j0)"
    by simp_all
  have off: "j0 * pageSize < 100000" using lt by (simp add: pageSize_def)
  have ne: "length (pg j0) \<noteq> 0" using l by (auto simp: pageSize_def)
  have nxt: "pageLoop q (Suc j0 * pageSize) (foldl addRow a (pg j0))
      = Inr (foldl addRow (foldl addRow a (pg j0)) (concat (map pg [Suc j0..<100])))"
    using Suc.hyps(1)[of "Suc j0"] Suc.hyps(2) lt by simp
  have "pageLoop q (j0 * pageSize) a = pageLoop q (j0 * pageSize + pageSize) (foldl addRow a (pg j0))"
    using off e p ne l by (subst pageLoop.simps) simp
  also have "\<dots> = Inr (foldl addRow (foldl addRow a (pg j0)) (concat (map pg [Suc j0..<100])))"
    using nxt by (simp add: add.commute)
  also have "foldl addRow (foldl addRow a (pg j0)) (concat (map pg [Suc j0..<100]))
      = foldl addRow a (concat (map pg [j0..<100]))"
    using lt by (simp add: upt_conv_Cons)
  finally show ?case .
qed

lemma sort_key_replicate: "sort_key f (replicate n x) = replicate n x"
  by (rule sort_key_id_if_sorted) (simp add: sorted_replicate)

lemma matching_uniform:
  "start \<le> 864000005 \<Longrightarrow>
     matching ''alice'' start (rows (uniformStore n f)) = replicate n (mkRow ''alice'' 864000005 80 100)"
  by (simp add: matching_def uniformStore_def mkRow_def)

lemma sorted_uniform:
  "start \<le> 864000005 \<Longrightarrow>
     sort_key created_at (matching ''alice'' start (rows (uniformStore n f)))
       = replicate n (mkRow ''alice'' 864000005 80 100)"
  by (simp add: matching_uniform sort_key_replicate)

lemma total_direct: "total (directAggregate xs) = length xs"
  by (simp add: directAggregate_def)

lemma parseDays_1: "parseDays (Some ''1'') = Some 1"
  by (simp add: parseDays_def parseInt_def isWhiteSpace_def isDigit_def digitValue_def)

lemma startUtc_now0_1: "startUtc now0 1 = Some 864000000"
  by (simp add: now0_def startUtc_def TimeClip_def setUTCHours0_def addUTCDate_def msPerDay_def maxTime_def)

lemma direct_uniform:
  "0 < n \<Longrightarrow> directAggregate (replicate n (mkRow ''alice'' 864000005 80 100)) =
     \<lparr> total = n, totalScore = of_nat n * 80, totalLatency = int n * 100, successCount = n,
       totalPiiRedacted = 0,
       scoreDistribution = \<lparr> excellent = 0, good = n, fair = 0, poor = 0 \<rparr>,
       dailyMap = (\<lambda>k. if k = 10 then Some \<lparr> bucket_count = n, bucket_totalScore = of_nat n * 80,
                                              bucket_totalLatency = int n * 100 \<rparr> else None) \<rparr>"
  by (auto simp: directAggregate_def dayRows_def mkRow_def piiOf_def dateKeyFromCreatedAt_def
        msPerDay_def sum_list_replicate filter_replicate fun_eq_iff)

subsection \<open>Counts per day, failing pages, score buckets\<close>

lemma count_trendPoint_direct:
  "count (trendPoint (dailyMap (directAggregate xs)) day) = length (dayRows (toIsoDate day) xs)"
  by (simp add: trendPoint_def directAggregate_def Let_def)

lemma sum_list_indicator:
  "sum_list (map (\<lambda>i. if i = a then (1::nat) else 0) [0..<n]) = (if a < n then 1 else 0)"
  by (induction n) auto

lemma sum_dayRows:
  assumes "\<forall>e \<in> set xs. S \<le> dateKeyFromCreatedAt (created_at e)
              \<and> dateKeyFromCreatedAt (created_at e) < S + int n"
  shows "sum_list (map (\<lambda>i. length (dayRows (S + int i) xs)) [0..<n]) = length xs"
  using assms
proof (induction xs)
  case Nil
  show ?case by (simp add: dayRows_def)
next
  case (Cons x xs)
  let ?k = "dateKeyFromCreatedAt (created_at x)"
  from Cons.prems have b: "S \<le> ?k" "?k < S + int n" by simp_all
  have ind: "(?k = S + int i) = (i = nat (?k - S))" for i using b by auto
  have "sum_list (map (\<lambda>i. length (dayRows (S + int i) (x # xs))) [0..<n])
      = sum_list (map (\<lambda>i. (if i = nat (?k - S) then 1 else 0) + length (dayRows (S + int i) xs)) [0..<n])"
    by (rule arg_cong[where f = sum_list], rule map_cong) (auto simp: dayRows_def ind)
  also have "\<dots> = sum_list (map (\<lambda>i. if i = nat (?k - S) then (1::nat) else 0) [0..<n])
      + sum_list (map (\<lambda>i. length (dayRows (S + int i) xs)) [0..<n])"
    by (simp add: sum_list_addf)
  also have "\<dots> = 1 + length xs"
    using Cons.IH Cons.prems b by (simp add: sum_list_indicator)
  finally show ?case by simp
qed

lemma GET_cong_query:
  assumes "user auth = Some uid" and "q1 uid = q2 uid"
  shows "GET auth daysParam now q1 = GET auth daysParam now q2"
  using assms by (simp add: GET_def split: option.splits)

lemma pageLoop_error:
  assumes full: "\<And>j. j < k \<Longrightarrow> error (q (j * pageSize)) = None \<and>
                    (\<exists>p. data (q (j * pageSize)) = Some p \<and> pageSize \<le> length p)"
    and err: "error (q (k * pageSize)) = Some msg" and k: "k < 100"
  shows "j0 \<le> k \<Longrightarrow> pageLoop q (j0 * pageSize) a = Inl msg"
proof (induction "k - j0" arbitrary: j0 a)
  case 0
  then have "j0 = k" by simp
  moreover have "k * pageSize < 100000" using k by (simp add: pageSize_def)
  ultimately show ?case using err by (subst pageLoop.simps) simp
next
  case (Suc n)
  then have lt: "j0 < k" by simp
  from full[OF lt] obtain p where e: "error (q (j0 * pageSize)) = None"
    and p: "data (q (j0 * pageSize)) = Some p" and l: "pageSize \<le> length p"
    by blast
  have off: "j0 * pageSize < 100000" using lt k by (simp add: pageSize_def)
  have ne: "length p \<noteq> 0" using l by (auto simp: pageSize_def)
  have "pageLoop q (j0 * pageSize) a = pageLoop q (Suc j0 * pageSize) (foldl addRow a p)"
    using off e p ne l by (subst pageLoop.simps) (simp add: add.commute)
  also have "\<dots> = Inl msg" using Suc.hyps(1)[of "Suc j0"] Suc.hyps(2) lt by simp
  finally show ?case .
qed

lemma seriesOf_nonpositive: "d \<le> 0 \<Longrightarrow> seriesOf start d m = []"
  by (simp add: seriesOf_def)

lemma parseDays_minus5: "parseDays (Some ''-5'') = Some (- 5)"
  by (simp add: parseDays_def parseInt_def isWhiteSpace_def isDigit_def digitValue_def)

lemma startUtc_now0_minus5: "startUtc now0 (- 5) = Some 1382400000"
  by (simp add: now0_def startUtc_def TimeClip_def setUTCHours0_def addUTCDate_def msPerDay_def maxTime_def)

lemma buckets_partition:
  "length (filter (\<lambda>e. score e \<ge> 90) xs)
     + length (filter (\<lambda>e. 70 \<le> score e \<and> score e < 90) xs)
     + length (filter (\<lambda>e. 50 \<le> score e \<and> score e < 70) xs)
     + length (filter (\<lambda>e. score e < 50) xs) = length xs"
  by (induction xs) auto

lemma success_buckets:
  "length (filter (\<lambda>e. score e \<ge> 70) xs)
     = length (filter (\<lambda>e. score e \<ge> 90) xs)
       + length (filter (\<lambda>e. 70 \<le> score e \<and> score e < 90) xs)"
  by (induction xs) auto

subsection \<open>The rows the loop runs over\<close>

lemma pageLoop_counted:
  "pageLoop q off a = Inr a' \<Longrightarrow> a' = foldl addRow a (countedRows q off)"
proof (induction q off a rule: pageLoop.induct)
  case (1 q offset a)
  show ?case
  proof (cases "offset < 100000")
    case False
    with "1.prems" show ?thesis by (simp add: pageLoop.simps countedRows.simps)
  next
    case lt: True
    show ?thesis
    proof (cases "error (q offset)")
      case (Some msg)
      with lt "1.prems" show ?thesis by (simp add: pageLoop.simps)
    next
      case noerr: None
      show ?thesis
      proof (cases "data (q offset)")
        case None
        with lt noerr "1.prems" show ?thesis
          by (subst countedRows.simps) (simp add: pageLoop.simps)
      next
        case (Some page)
        show ?thesis
        proof (cases "length page = 0 \<or> length page < pageSize")
          case True
          with lt noerr Some "1.prems" show ?thesis
            by (subst countedRows.simps) (auto simp: pageLoop.simps split: if_splits)
        next
          case False
          then have ne: "length page \<noteq> 0" and full: "\<not> length page < pageSize" by simp_all
          with lt noerr Some "1.prems"
          have rec: "pageLoop q (offset + pageSize) (foldl addRow a page) = Inr a'"
            by (simp add: pageLoop.simps)
          from "1.IH"[OF lt noerr Some ne full rec]
          have "a' = foldl addRow (foldl addRow a page) (countedRows q (offset + pageSize))" .
          moreover have "countedRows q offset = page @ countedRows q (offset + pageSize)"
            using lt noerr Some ne full by (subst countedRows.simps) simp
          ultimately show ?thesis by simp
        qed
      qed
    qed
  qed
qed

lemma countedRows_store:
  assumes nf: "\<And>off. fault st off = None"
  shows "pageSize dvd off \<Longrightarrow> off \<le> 100000 \<Longrightarrow>
     countedRows (storeQuery st uid start) off =
       take (100000 - off) (drop off (sort_key created_at (matching uid start (rows st))))"
proof (induction "100000 - off" arbitrary: off rule: less_induct)
  case less
  define xs where "xs = sort_key created_at (matching uid start (rows st))"
  have q: "storeQuery st uid start off
      = \<lparr> data = Some (take pageSize (drop off xs)), error = None \<rparr>" for off
    by (simp add: storeQuery_def nf xs_def)
  show ?case
  proof (cases "off < 100000")
    case False
    then show ?thesis by (simp add: countedRows.simps)
  next
    case lt: True
    from less.prems lt have room: "pageSize \<le> 100000 - off"
      by (auto simp: pageSize_def dvd_def)
    let ?page = "take pageSize (drop off xs)"
    show ?thesis
    proof (cases "length ?page = 0")
      case True
      then have "drop off xs = []" by (auto simp: pageSize_def)
      with lt True show ?thesis
        by (subst countedRows.simps) (simp add: q flip: xs_def)
    next
      case ne: False
      show ?thesis
      proof (cases "length ?page < pageSize")
        case True
        then have all: "?page = drop off xs" by (simp add: min_def split: if_splits)
        from True have "length (drop off xs) < pageSize" by (simp only: all)
        with room have "take (100000 - off) (drop off xs) = drop off xs" by simp
        with lt ne True all show ?thesis
          by (subst countedRows.simps) (simp add: q flip: xs_def)
      next
        case full: False
        have dv: "pageSize dvd off + pageSize" using less.prems by simp
        have le: "off + pageSize \<le> 100000" using room lt by simp
        have m: "100000 - (off + pageSize) < 100000 - off" using lt by (simp add: pageSize_def)
        have split: "take (100000 - off) (drop off xs) =
            ?page @ take (100000 - (off + pageSize)) (drop (off + pageSize) xs)"
        proof -
          have "100000 - off = pageSize + (100000 - (off + pageSize))" using room by simp
          then show ?thesis by (simp only: take_add drop_drop add.commute)
        qed
        from lt ne full show ?thesis
          by (subst countedRows.simps)
             (simp add: q less.hyps[OF m dv le] split flip: xs_def)
      qed
    qed
  qed
qed

lemma band_GET: "GET alice (Some ''1'') now0 (storeQuery bandStore) = Inr bandResponse"
  by (subst GET_store[OF _ _ parseDays_1 startUtc_now0_1, of alice "''alice''" bandStore, OF _ _ _ refl])
     (simp_all add: alice_def bandStore_def bandRows_def noFault_def bandResponse_def eval_defs)

lemma band_counted: "countedRows (storeQuery bandStore ''alice'' 864000000) 0 = bandRows"
proof -
  have nf: "\<And>off. fault bandStore off = None" by (simp add: bandStore_def noFault_def)
  from countedRows_store[of bandStore 0 "''alice''" 864000000, OF nf] show ?thesis
    by (simp add: bandStore_def bandRows_def matching_def mkRow_def)
qed

subsection \<open>Window starts that are not representable\<close>

lemma startUtc_None_iff:
  "startUtc now d = None \<longleftrightarrow>
     \<not> (\<bar>now\<bar> \<le> maxTime \<and> \<bar>(toIsoDate now - (d - 1)) * msPerDay\<bar> \<le> maxTime)"
proof -
  have eq: "now - now mod msPerDay = now div msPerDay * msPerDay"
    by (simp add: minus_mod_eq_div_mult)
  have day: "\<bar>now div msPerDay * msPerDay\<bar> \<le> maxTime" if "\<bar>now\<bar> \<le> maxTime"
  proof -
    have hi: "now div msPerDay * msPerDay \<le> now" by (simp add: msPerDay_def)
    have "(- maxTime) div msPerDay \<le> now div msPerDay"
      using that by (intro zdiv_mono1) (simp_all add: msPerDay_def)
    then have "- 100000000 \<le> now div msPerDay" by (simp add: maxTime_def msPerDay_def)
    then have "- 100000000 * msPerDay \<le> now div msPerDay * msPerDay"
      by (simp add: msPerDay_def)
    then have lo: "- maxTime \<le> now div msPerDay * msPerDay" by (simp add: maxTime_def msPerDay_def)
    from hi lo that show ?thesis by linarith
  qed
  show ?thesis
  proof (cases "\<bar>now\<bar> \<le> maxTime")
    case False
    then show ?thesis by (simp add: startUtc_def TimeClip_def)
  next
    case True
    with day have "setUTCHours0 now = Some (now div msPerDay * msPerDay)"
      by (simp add: setUTCHours0_def TimeClip_def eq)
    moreover have "now div msPerDay * msPerDay + (1 - d) * msPerDay
        = (now div msPerDay - (d - 1)) * msPerDay"
      by (simp add: algebra_simps)
    ultimately show ?thesis using True
      by (simp add: startUtc_def TimeClip_def addUTCDate_def toIsoDate_def)
  qed
qed

lemma parseDays_far: "parseDays (Some ''-99999990'') = Some (- 99999990)"
  by (simp add: parseDays_def parseInt_def isWhiteSpace_def isDigit_def digitValue_def)

lemma startUtc_now0_far: "startUtc now0 (- 99999990) = None"
  by (simp add: now0_def startUtc_def TimeClip_def setUTCHours0_def addUTCDate_def msPerDay_def maxTime_def)

section \<open>The daily series\<close>

text \<open>
  C1. For a positive \<open>days = d\<close>, the \<open>dailyTrends\<close> of a successful response has exactly
  \<open>d\<close> entries; entry \<open>i\<close> carries the calendar day \<open>today - (d - 1) + i\<close>, so the dates
  go up by one day from entry to entry and the last entry is today (UTC); an entry
  whose day has no row of the signed-in user in the table is
  \<open>{date, count: 0, avgScore: 0, avgLatency: 0}\<close>.
\<close>

theorem dailyTrends_series:
  assumes ok: "GET auth daysParam now (storeQuery st) = Inr r"
    and days: "parseDays daysParam = Some d" and pos: "0 < d"
  shows "length (dailyTrends r) = nat d
     \<and> (\<forall>i. i < nat d \<longrightarrow> date (dailyTrends r ! i) = toIsoDate now - (d - 1) + int i)
     \<and> (\<forall>i. Suc i < nat d \<longrightarrow> date (dailyTrends r ! Suc i) = date (dailyTrends r ! i) + 1)
     \<and> date (last (dailyTrends r)) = toIsoDate now
     \<and> (\<forall>i. i < nat d \<longrightarrow>
          (\<forall>e \<in> set (rows st). user auth = Some (user_id e) \<longrightarrow>
              dateKeyFromCreatedAt (created_at e) \<noteq> date (dailyTrends r ! i)) \<longrightarrow>
          dailyTrends r ! i =
            \<lparr> date = date (dailyTrends r ! i), count = 0, point_avgScore = 0, point_avgLatency = 0 \<rparr>)"
proof -
  from ok obtain uid d' start a where u: "user auth = Some uid"
    and d': "parseDays daysParam = Some d'" and s: "startUtc now d' = Some start"
    and loop: "pageLoop (storeQuery st uid start) 0 initAccum = Inr a"
    and r: "r = buildStats a (seriesOf start d' (dailyMap a))"
    by (rule GET_Inr_D)
  from d' days have [simp]: "d' = d" by simp
  have ts: "dailyTrends r = seriesOf start d (dailyMap a)" by (simp add: r dailyTrends_buildStats)
  have len: "length (dailyTrends r) = nat d" by (simp add: ts length_seriesOf)
  have dt: "date (dailyTrends r ! i) = toIsoDate now - (d - 1) + int i" if "i < nat d" for i
    using that s by (simp add: ts nth_seriesOf date_trendPoint toIsoDate_start)
  have step: "date (dailyTrends r ! Suc i) = date (dailyTrends r ! i) + 1" if "Suc i < nat d" for i
    using that dt[of i] dt[of "Suc i"] by simp
  have lst: "date (last (dailyTrends r)) = toIsoDate now"
  proof -
    from pos len have ne: "dailyTrends r \<noteq> []" by auto
    have "last (dailyTrends r) = dailyTrends r ! (nat d - 1)" using ne len by (simp add: last_conv_nth)
    moreover have "nat d - 1 < nat d" using pos by simp
    ultimately show ?thesis using dt[of "nat d - 1"] pos by simp
  qed
  have zero: "dailyTrends r ! i =
      \<lparr> date = date (dailyTrends r ! i), count = 0, point_avgScore = 0, point_avgLatency = 0 \<rparr>"
    if i: "i < nat d"
      and none: "\<forall>e \<in> set (rows st). user auth = Some (user_id e) \<longrightarrow>
              dateKeyFromCreatedAt (created_at e) \<noteq> date (dailyTrends r ! i)" for i
  proof -
    from loop obtain xs where a: "a = directAggregate xs"
      and sub: "set xs \<subseteq> set (matching uid start (rows st))"
      by (rule pageLoop_store_direct)
    let ?day = "start + int i * msPerDay"
    have k: "date (dailyTrends r ! i) = toIsoDate ?day"
      using i by (simp add: ts nth_seriesOf date_trendPoint)
    have "dayRows (toIsoDate ?day) xs = []"
    proof (rule ccontr)
      assume "dayRows (toIsoDate ?day) xs \<noteq> []"
      then obtain e where e: "e \<in> set xs" "dateKeyFromCreatedAt (created_at e) = toIsoDate ?day"
        by (auto simp: dayRows_def filter_empty_conv)
      from e(1) sub have "e \<in> set (rows st)" "user_id e = uid" by (auto simp: matching_def)
      with none u k e(2) show False by auto
    qed
    then have "dailyMap a (toIsoDate ?day) = None" by (simp add: a dailyMap_direct_None)
    then have "trendPoint (dailyMap a) ?day =
        \<lparr> date = toIsoDate ?day, count = 0, point_avgScore = 0, point_avgLatency = 0 \<rparr>"
      by (rule trendPoint_empty)
    then show ?thesis using i k by (simp add: ts nth_seriesOf)
  qed
  from len dt step lst zero show ?thesis by blast
qed

theorem dailyTrends_series_witness:
  "GET alice (Some ''3'') now0 (storeQuery demoStore) = Inr demoResponse
     \<and> parseDays (Some ''3'') = Some 3
     \<and> length (dailyTrends demoResponse) = 3
     \<and> date (last (dailyTrends demoResponse)) = toIsoDate now0
     \<and> date (dailyTrends demoResponse ! 1) = date (dailyTrends demoResponse ! 0) + 1
     \<and> dailyTrends demoResponse ! 0
          = \<lparr> date = 8, count = 0, point_avgScore = 0, point_avgLatency = 0 \<rparr>"
proof -
  have pos: "(0::int) < 3" by simp
  note t = dailyTrends_series[OF demo_GET parseDays_3 pos]
  from t have "length (dailyTrends demoResponse) = 3" by simp
  moreover from t have "date (last (dailyTrends demoResponse)) = toIsoDate now0" by simp
  moreover from t have "date (dailyTrends demoResponse ! Suc 0) = date (dailyTrends demoResponse ! 0) + 1"
    by simp
  moreover have "dailyTrends demoResponse ! 0
      = \<lparr> date = 8, count = 0, point_avgScore = 0, point_avgLatency = 0 \<rparr>"
  proof -
    have d0: "date (dailyTrends demoResponse ! 0) = 8"
      using t by (simp add: toIsoDate_def now0_def msPerDay_def)
    have none: "\<forall>e \<in> set (rows demoStore). user alice = Some (user_id e) \<longrightarrow>
        dateKeyFromCreatedAt (created_at e) \<noteq> date (dailyTrends demoResponse ! 0)"
      unfolding d0
      by (simp add: demoStore_def demoRows_def mkRow_def dateKeyFromCreatedAt_def msPerDay_def)
    from t have "\<forall>i. i < nat 3 \<longrightarrow>
        (\<forall>e \<in> set (rows demoStore). user alice = Some (user_id e) \<longrightarrow>
            dateKeyFromCreatedAt (created_at e) \<noteq> date (dailyTrends demoResponse ! i)) \<longrightarrow>
        dailyTrends demoResponse ! i =
          \<lparr> date = date (dailyTrends demoResponse ! i), count = 0, point_avgScore = 0,
            point_avgLatency = 0 \<rparr>"
      by blast
    then have "dailyTrends demoResponse ! 0 =
          \<lparr> date = date (dailyTrends demoResponse ! 0), count = 0, point_avgScore = 0,
            point_avgLatency = 0 \<rparr>"
      using none by simp
    then show ?thesis by (simp only: d0)
  qed
  ultimately show ?thesis using demo_GET parseDays_3 by simp
qed

section \<open>Pagination against direct aggregation\<close>

text \<open>
  C2 (as amended). When no page query fails and at most 100000 rows of the tenant lie at
  or after the threshold, the page loop ends with exactly the accumulator that direct
  single-pass aggregation over all these rows gives (count, sums, success count,
  redaction total, score distribution, per-day buckets), and the response is built
  from it; this covers tables larger than one page.
\<close>

theorem paginated_equals_direct:
  assumes "user auth = Some uid" and "userError auth = None"
      and "parseDays daysParam = Some d" and "startUtc now d = Some start"
      and nf: "\<And>off. fault st off = None"
      and le: "length (matching uid start (rows st)) \<le> 100000"
      and a: "a = directAggregate (matching uid start (rows st))"
  shows "pageLoop (storeQuery st uid start) 0 initAccum = Inr a
       \<and> GET auth daysParam now (storeQuery st) = Inr (buildStats a (seriesOf start d (dailyMap a)))"
proof -
  have loop: "pageLoop (storeQuery st uid start) 0 initAccum = Inr a"
    unfolding a by (rule pageLoop_store_all[OF nf le])
  then show ?thesis by (simp add: GET_authorized[OF assms(1-4)])
qed

text \<open>
  With 100001 matching rows the loop stops at the offset ceiling after 100 pages: its
  accumulator is the aggregate of 100000 rows, direct aggregation counts 100001.
\<close>

theorem paginated_equals_direct_counterexample:
  "pageLoop (storeQuery (uniformStore 100001 noFault) ''alice'' 864000000) 0 initAccum
      = Inr (directAggregate (replicate 100000 (mkRow ''alice'' 864000005 80 100)))
   \<and> total (directAggregate (replicate 100000 (mkRow ''alice'' 864000005 80 100))) = 100000
   \<and> total (directAggregate (matching ''alice'' 864000000 (rows (uniformStore 100001 noFault))))
        = 100001
   \<and> pageLoop (storeQuery (uniformStore 100001 noFault) ''alice'' 864000000) 0 initAccum
      \<noteq> Inr (directAggregate (matching ''alice'' 864000000 (rows (uniformStore 100001 noFault))))"
proof -
  have nf: "\<And>off. fault (uniformStore 100001 noFault) off = None"
    by (simp add: uniformStore_def noFault_def)
  have "pageLoop (storeQuery (uniformStore 100001 noFault) ''alice'' 864000000) 0 initAccum
      = Inr (foldl addRow initAccum (replicate 100000 (mkRow ''alice'' 864000005 80 100)))"
    using pageLoop_store[of "uniformStore 100001 noFault" 0 "''alice''" 864000000 initAccum, OF nf]
    by (simp add: sorted_uniform)
  then have loop: "pageLoop (storeQuery (uniformStore 100001 noFault) ''alice'' 864000000) 0 initAccum
      = Inr (directAggregate (replicate 100000 (mkRow ''alice'' 864000005 80 100)))"
    by (simp add: foldl_initAccum)
  have t1: "total (directAggregate (replicate 100000 (mkRow ''alice'' 864000005 80 100))) = 100000"
    by (simp add: total_direct)
  have t2: "total (directAggregate (matching ''alice'' 864000000 (rows (uniformStore 100001 noFault))))
      = 100001"
    by (simp add: total_direct matching_uniform)
  have "directAggregate (replicate 100000 (mkRow ''alice'' 864000005 80 100))
      \<noteq> directAggregate (matching ''alice'' 864000000 (rows (uniformStore 100001 noFault)))"
    using t1 t2 by auto
  with loop t1 t2 show ?thesis by simp
qed

theorem paginated_equals_direct_witness:
  "length (matching ''alice'' 864000000 (rows (uniformStore 1500 noFault))) \<le> 100000
   \<and> pageLoop (storeQuery (uniformStore 1500 noFault) ''alice'' 864000000) 0 initAccum
        = Inr (directAggregate (matching ''alice'' 864000000 (rows (uniformStore 1500 noFault))))
   \<and> total (directAggregate (matching ''alice'' 864000000 (rows (uniformStore 1500 noFault))))
        = 1500"
proof -
  have le: "length (matching ''alice'' 864000000 (rows (uniformStore 1500 noFault))) \<le> 100000"
    by (simp add: matching_uniform)
  have nf: "\<And>off. fault (uniformStore 1500 noFault) off = None"
    by (simp add: uniformStore_def noFault_def)
  have u: "user alice = Some ''alice''" "userError alice = None" by (simp_all add: alice_def)
  from paginated_equals_direct[OF u parseDays_1 startUtc_now0_1 nf le refl] le
  show ?thesis by (simp add: total_direct matching_uniform)
qed

section \<open>The window of counted rows\<close>

text \<open>
  C3 (as amended). For every \<open>days = d\<close> and every table whose page queries do not fail,
  the threshold is the start of the UTC day \<open>today - (d - 1)\<close>, and the response is built
  from the accumulator that the loop body leaves after exactly the rows of the
  signed-in user with \<open>created_at\<close> at or after the threshold, in \<open>created_at\<close> order,
  up to the first 100000 of them. There is no upper bound at \<open>now\<close>. Rows before the
  threshold and rows of other users reach no output field: deleting them from the
  table leaves the response as it is.
\<close>

theorem counted_records:
  assumes "user auth = Some uid" and "userError auth = None"
      and "parseDays daysParam = Some d" and "startUtc now d = Some start"
      and nf: "\<And>off. fault st off = None"
      and a: "a = foldl addRow initAccum (take 100000 (sort_key created_at
                    (filter (\<lambda>e. user_id e = uid \<and> start \<le> created_at e) (rows st))))"
  shows "start = (toIsoDate now - (d - 1)) * msPerDay
       \<and> GET auth daysParam now (storeQuery st) = Inr (buildStats a (seriesOf start d (dailyMap a)))
       \<and> GET auth daysParam now
            (storeQuery (st\<lparr> rows := filter (\<lambda>e. user_id e = uid \<and> start \<le> created_at e) (rows st) \<rparr>))
          = GET auth daysParam now (storeQuery st)"
proof -
  let ?st' = "st\<lparr> rows := filter (\<lambda>e. user_id e = uid \<and> start \<le> created_at e) (rows st) \<rparr>"
  have "start = (toIsoDate now - (d - 1)) * msPerDay"
    using startUtc_Some(1)[OF assms(4)] by (simp add: toIsoDate_def)
  moreover have "GET auth daysParam now (storeQuery st) = Inr (buildStats a (seriesOf start d (dailyMap a)))"
    by (rule GET_store[OF assms(1-4) nf]) (simp add: a matching_def foldl_initAccum)
  moreover have "GET auth daysParam now (storeQuery ?st') = GET auth daysParam now (storeQuery st)"
  proof -
    have "storeQuery ?st' uid start = storeQuery st uid start"
      by (rule ext) (simp add: storeQuery_def matching_def split: option.splits)
    then show ?thesis by (simp add: GET_authorized[OF assms(1-4)])
  qed
  ultimately show ?thesis by simp
qed

text \<open>
  A row of the user stamped one second after \<open>now0\<close> lies outside \<open>[start, now0]\<close> and is
  counted all the same: the answer has \<open>totalEvals = 1\<close>.
\<close>

theorem counted_records_counterexample:
  "rows lateStore = [mkRow ''alice'' 864001100 80 100]
   \<and> now0 < created_at (mkRow ''alice'' 864001100 80 100)
   \<and> GET alice (Some ''1'') now0 (storeQuery lateStore) = Inr lateResponse
   \<and> totalEvals lateResponse = 1"
proof -
  have "GET alice (Some ''1'') now0 (storeQuery lateStore) = Inr lateResponse"
    by (subst GET_store[OF _ _ parseDays_1 startUtc_now0_1, of alice "''alice''" lateStore, OF _ _ _ refl])
       (simp_all add: alice_def lateStore_def noFault_def lateResponse_def eval_defs)
  then show ?thesis by (simp add: lateStore_def now0_def mkRow_def lateResponse_def)
qed

theorem counted_records_witness:
  "startUtc now0 3 = Some 691200000
   \<and> (691200000::int) = (toIsoDate now0 - (3 - 1)) * msPerDay
   \<and> GET alice (Some ''3'') now0 (storeQuery demoStore) =
       Inr (buildStats
         (foldl addRow initAccum (take 100000 (sort_key created_at
            (filter (\<lambda>e. user_id e = ''alice'' \<and> 691200000 \<le> created_at e) (rows demoStore)))))
         (seriesOf 691200000 3 (dailyMap
         (foldl addRow initAccum (take 100000 (sort_key created_at
            (filter (\<lambda>e. user_id e = ''alice'' \<and> 691200000 \<le> created_at e) (rows demoStore))))))))"
proof -
  have u: "user alice = Some ''alice''" "userError alice = None" by (simp_all add: alice_def)
  have nf: "\<And>off. fault demoStore off = None" by (simp add: demoStore_def noFault_def)
  from counted_records[OF u parseDays_3 startUtc_now0_3 nf refl] startUtc_now0_3
  show ?thesis by simp
qed

section \<open>Daily counts against the total\<close>

text \<open>
  C4 (as amended). When no row of the signed-in user is dated after today (UTC), the
  counts of the \<open>dailyTrends\<close> entries of a successful response add up to its
  \<open>totalEvals\<close>, for every \<open>days\<close>.
\<close>

theorem daily_counts_sum_to_total:
  assumes ok: "GET auth daysParam now (storeQuery st) = Inr r"
    and past: "\<forall>e \<in> set (rows st). user auth = Some (user_id e) \<longrightarrow>
                 dateKeyFromCreatedAt (created_at e) \<le> toIsoDate now"
  shows "sum_list (map count (dailyTrends r)) = totalEvals r"
proof -
  from ok obtain uid d start a where u: "user auth = Some uid"
    and s: "startUtc now d = Some start"
    and loop: "pageLoop (storeQuery st uid start) 0 initAccum = Inr a"
    and r: "r = buildStats a (seriesOf start d (dailyMap a))"
    by (rule GET_Inr_D)
  from loop obtain xs where a: "a = directAggregate xs"
    and sub: "set xs \<subseteq> set (matching uid start (rows st))"
    by (rule pageLoop_store_direct)
  define S where "S = toIsoDate now - (d - 1)"
  have start: "start = S * msPerDay"
    using startUtc_Some(1)[OF s] by (simp add: S_def toIsoDate_def)
  have keys: "\<forall>e \<in> set xs. S \<le> dateKeyFromCreatedAt (created_at e)
              \<and> dateKeyFromCreatedAt (created_at e) < S + int (nat d)"
  proof
    fix e assume "e \<in> set xs"
    with sub have m: "e \<in> set (rows st)" "user_id e = uid" "start \<le> created_at e"
      by (auto simp: matching_def)
    have "S * msPerDay div msPerDay \<le> created_at e div msPerDay"
      using m(3) unfolding start by (rule zdiv_mono1) (simp add: msPerDay_def)
    then have lo: "S \<le> dateKeyFromCreatedAt (created_at e)"
      by (simp add: dateKeyFromCreatedAt_def msPerDay_def)
    from past m(1,2) u have "dateKeyFromCreatedAt (created_at e) \<le> toIsoDate now" by simp
    then have "dateKeyFromCreatedAt (created_at e) \<le> S + d - 1" by (simp add: S_def)
    with lo show "S \<le> dateKeyFromCreatedAt (created_at e)
              \<and> dateKeyFromCreatedAt (created_at e) < S + int (nat d)" by auto
  qed
  have "map count (dailyTrends r) = map (\<lambda>i. length (dayRows (S + int i) xs)) [0..<nat d]"
    by (simp add: r dailyTrends_buildStats seriesOf_def a count_trendPoint_direct
          toIsoDate_start[OF s] S_def)
  then have "sum_list (map count (dailyTrends r)) = length xs"
    using sum_dayRows[OF keys] by simp
  moreover have "totalEvals r = length xs" by (simp add: r a buildStats_def Let_def total_direct)
  ultimately show ?thesis by simp
qed

text \<open>
  A row of the user dated tomorrow is in \<open>totalEvals\<close> and in no entry of the series.
\<close>

theorem daily_counts_sum_to_total_counterexample:
  "rows tomorrowStore = [mkRow ''alice'' 950400100 80 100]
   \<and> GET alice (Some ''1'') now0 (storeQuery tomorrowStore) = Inr tomorrowResponse
   \<and> totalEvals tomorrowResponse = 1
   \<and> sum_list (map count (dailyTrends tomorrowResponse)) = 0
   \<and> sum_list (map count (dailyTrends tomorrowResponse)) \<noteq> totalEvals tomorrowResponse"
proof -
  have "GET alice (Some ''1'') now0 (storeQuery tomorrowStore) = Inr tomorrowResponse"
    by (subst GET_store[OF _ _ parseDays_1 startUtc_now0_1, of alice "''alice''" tomorrowStore, OF _ _ _ refl])
       (simp_all add: alice_def tomorrowStore_def noFault_def tomorrowResponse_def eval_defs)
  then show ?thesis by (simp add: tomorrowStore_def tomorrowResponse_def)
qed

theorem daily_counts_sum_to_total_witness:
  "GET alice (Some ''3'') now0 (storeQuery demoStore) = Inr demoResponse
   \<and> sum_list (map count (dailyTrends demoResponse)) = totalEvals demoResponse"
proof -
  have "\<forall>e \<in> set (rows demoStore). user alice = Some (user_id e) \<longrightarrow>
                 dateKeyFromCreatedAt (created_at e) \<le> toIsoDate now0"
    by (simp add: demoStore_def demoRows_def mkRow_def alice_def dateKeyFromCreatedAt_def
          toIsoDate_def now0_def msPerDay_def)
  from daily_counts_sum_to_total[OF demo_GET this] demo_GET show ?thesis by simp
qed

section \<open>Tenant isolation\<close>

text \<open>
  C5. Two tables that hold the same rows of the signed-in user (in the same order) and
  fail at the same offsets give the same response, whatever rows of other users they
  hold.
\<close>

theorem tenant_isolation:
  assumes u: "user auth = Some uid"
    and same: "filter (\<lambda>e. user_id e = uid) (rows st1) = filter (\<lambda>e. user_id e = uid) (rows st2)"
    and faults: "fault st1 = fault st2"
  shows "GET auth daysParam now (storeQuery st1) = GET auth daysParam now (storeQuery st2)"
proof -
  have m: "matching uid start rs = filter (\<lambda>e. start \<le> created_at e) (filter (\<lambda>e. user_id e = uid) rs)"
    for start rs
    by (simp add: matching_def conj_commute)
  have "storeQuery st1 uid = storeQuery st2 uid"
    by (rule ext, rule ext) (simp add: storeQuery_def m same faults split: option.splits)
  with u show ?thesis by (rule GET_cong_query)
qed

theorem tenant_isolation_witness:
  "filter (\<lambda>e. user_id e = ''alice'') (rows demoStore)
      = filter (\<lambda>e. user_id e = ''alice'') (rows crowdedStore)
   \<and> rows demoStore \<noteq> rows crowdedStore
   \<and> GET alice (Some ''3'') now0 (storeQuery crowdedStore) = Inr demoResponse"
proof -
  have u: "user alice = Some ''alice''" by (simp add: alice_def)
  have same: "filter (\<lambda>e. user_id e = ''alice'') (rows demoStore)
      = filter (\<lambda>e. user_id e = ''alice'') (rows crowdedStore)"
    by (simp add: demoStore_def crowdedStore_def demoRows_def mkRow_def)
  have faults: "fault demoStore = fault crowdedStore"
    by (simp add: demoStore_def crowdedStore_def)
  have "rows demoStore \<noteq> rows crowdedStore"
    by (simp add: demoStore_def crowdedStore_def demoRows_def mkRow_def)
  with tenant_isolation[OF u same faults, of "Some ''3''" now0] demo_GET same
  show ?thesis by simp
qed

section \<open>Failing page queries\<close>

text \<open>
  C6. If the loop reaches a page query that returns an error (all pages before it were
  full and error-free), the handler answers with the single error response
  \<open>500 { error: message }\<close> and with no success payload, so an error is never turned into
  a partial or all-zero \<open>data\<close> object.
\<close>

theorem fetch_error_aborts:
  assumes "user auth = Some uid" and "userError auth = None"
      and "parseDays daysParam = Some d" and "startUtc now d = Some start"
      and k: "k < 100"
      and full: "\<And>j. j < k \<Longrightarrow> error (q uid start (j * pageSize)) = None \<and>
                    (\<exists>p. data (q uid start (j * pageSize)) = Some p \<and> pageSize \<le> length p)"
      and err: "error (q uid start (k * pageSize)) = Some msg"
  shows "GET auth daysParam now q = Inl (FetchFailed msg)
       \<and> status (FetchFailed msg) = 500 \<and> message (FetchFailed msg) = msg
       \<and> (\<forall>r. GET auth daysParam now q \<noteq> Inr r)"
proof -
  have "pageLoop (q uid start) (0 * pageSize) initAccum = Inl msg"
    by (rule pageLoop_error[of k "q uid start", OF full err k]) simp_all
  then show ?thesis by (simp add: GET_authorized[OF assms(1-4)])
qed

theorem fetch_error_aborts_witness:
  "data (storeQuery (uniformStore 1500 (failAt 1000 ''timeout'')) ''alice'' 864000000 0)
      = Some (replicate 1000 (mkRow ''alice'' 864000005 80 100))
   \<and> error (storeQuery (uniformStore 1500 (failAt 1000 ''timeout'')) ''alice'' 864000000 1000)
      = Some ''timeout''
   \<and> GET alice (Some ''1'') now0 (storeQuery (uniformStore 1500 (failAt 1000 ''timeout'')))
      = Inl (FetchFailed ''timeout'')"
proof -
  let ?q = "storeQuery (uniformStore 1500 (failAt 1000 ''timeout''))"
  have u: "user alice = Some ''alice''" "userError alice = None" by (simp_all add: alice_def)
  have p0: "data (?q ''alice'' 864000000 0) = Some (replicate 1000 (mkRow ''alice'' 864000005 80 100))"
    "error (?q ''alice'' 864000000 0) = None"
    using sorted_uniform[of 864000000 1500 "failAt 1000 ''timeout''"]
    by (simp_all add: storeQuery_def pageSize_def uniformStore_def failAt_def)
  have full: "error (?q ''alice'' 864000000 (j * pageSize)) = None \<and>
      (\<exists>p. data (?q ''alice'' 864000000 (j * pageSize)) = Some p \<and> pageSize \<le> length p)"
    if "j < 1" for j
    using that p0 by (simp add: pageSize_def)
  have err: "error (?q ''alice'' 864000000 (1 * pageSize)) = Some ''timeout''"
    by (simp add: storeQuery_def pageSize_def uniformStore_def failAt_def)
  have k: "(1::nat) < 100" by simp
  from fetch_error_aborts[where q = ?q, OF u parseDays_1 startUtc_now0_1 k full err] p0 err
  show ?thesis by (simp add: pageSize_def)
qed

section \<open>The \<open>days\<close> parameter\<close>

text \<open>
  C7 (as amended). A missing \<open>days\<close> parameter is read as 7. A zero or negative \<open>days\<close>
  value of an authenticated request is never validated: the handler processes it like
  any other value. When the clock value is a valid date, the
  window start \<open>startOfUTCDay(now) - (days - 1)\<close> days is a representable date (time
  value within \<open>\<plusminus>8.64e15\<close> ms) and the page loop ends without an error, the answer is
  a success payload whose \<open>dailyTrends\<close> is empty; a failing page query gives the 500
  with the query's message; when the window start is not representable the \<open>catch\<close>
  block answers with the generic 500 \<open>Internal server error\<close>.
\<close>

theorem days_parameter_handling:
  assumes u: "user auth = Some uid" and ue: "userError auth = None"
      and dp: "parseDays (Some s) = Some d" and neg: "d \<le> 0"
  shows "parseDays None = Some 7
       \<and> GET auth None now q = GET auth (Some ''7'') now q
       \<and> GET auth (Some s) now q =
           (case startUtc now d of
              None \<Rightarrow> Inl InternalServerError
            | Some start \<Rightarrow>
                (case pageLoop (q uid start) 0 initAccum of
                   Inl msg \<Rightarrow> Inl (FetchFailed msg)
                 | Inr a \<Rightarrow> Inr (buildStats a [])))
       \<and> (startUtc now d = None \<longleftrightarrow>
             \<not> (\<bar>now\<bar> \<le> maxTime \<and> \<bar>(toIsoDate now - (d - 1)) * msPerDay\<bar> \<le> maxTime))"
proof -
  have p: "parseDays None = parseDays (Some ''7'')" by (simp add: parseDays_def)
  have p7: "parseDays None = Some 7"
    by (simp add: parseDays_def parseInt_def isWhiteSpace_def isDigit_def digitValue_def)
  have same: "GET auth None now q = GET auth (Some ''7'') now q" by (simp add: GET_def p)
  have g: "GET auth (Some s) now q =
           (case startUtc now d of
              None \<Rightarrow> Inl InternalServerError
            | Some start \<Rightarrow>
                (case pageLoop (q uid start) 0 initAccum of
                   Inl msg \<Rightarrow> Inl (FetchFailed msg)
                 | Inr a \<Rightarrow> Inr (buildStats a [])))"
  proof (cases "startUtc now d")
    case None
    then show ?thesis using u ue dp by (simp add: GET_def)
  next
    case (Some start)
    then show ?thesis
      using neg by (simp add: GET_authorized[OF u ue dp Some] seriesOf_nonpositive split: sum.splits)
  qed
  show ?thesis by (intro conjI p7 same g startUtc_None_iff)
qed

text \<open>\<open>days=-5\<close> over the demo table is answered with a success payload.\<close>

theorem negative_days_counterexample:
  "parseDays (Some ''-5'') = Some (- 5)
   \<and> GET alice (Some ''-5'') now0 (storeQuery demoStore) = Inr emptyResponse
   \<and> dailyTrends emptyResponse = []"
proof -
  have "GET alice (Some ''-5'') now0 (storeQuery demoStore) = Inr emptyResponse"
    by (subst GET_store[OF _ _ parseDays_minus5 startUtc_now0_minus5, of alice "''alice''" demoStore, OF _ _ _ refl])
       (simp_all add: alice_def demoStore_def demoRows_def noFault_def emptyResponse_def eval_defs)
  then show ?thesis by (simp add: parseDays_minus5 emptyResponse_def)
qed

text \<open>
  The theorem at \<open>days=-5\<close> (the window starts on day 16: success, empty series) and at
  \<open>days=-99999990\<close> (the window start is not a representable date: generic 500).
\<close>

theorem days_parameter_handling_witness:
  "parseDays (Some ''-5'') = Some (- 5)
   \<and> startUtc now0 (- 5) = Some 1382400000
   \<and> pageLoop (storeQuery demoStore ''alice'' 1382400000) 0 initAccum = Inr initAccum
   \<and> GET alice None now0 (storeQuery demoStore) = GET alice (Some ''7'') now0 (storeQuery demoStore)
   \<and> GET alice (Some ''-5'') now0 (storeQuery demoStore) = Inr (buildStats initAccum [])
   \<and> parseDays (Some ''-99999990'') = Some (- 99999990)
   \<and> startUtc now0 (- 99999990) = None
   \<and> GET alice (Some ''-99999990'') now0 (storeQuery demoStore) = Inl InternalServerError"
proof -
  have u: "user alice = Some ''alice''" "userError alice = None" by (simp_all add: alice_def)
  have neg: "(- 5::int) \<le> 0" "(- 99999990::int) \<le> 0" by simp_all
  have nf: "\<And>off. fault demoStore off = None" by (simp add: demoStore_def noFault_def)
  have loop: "pageLoop (storeQuery demoStore ''alice'' 1382400000) 0 initAccum = Inr initAccum"
    using pageLoop_store[of demoStore 0 "''alice''" 1382400000 initAccum, OF nf]
    by (simp add: matching_def demoStore_def demoRows_def mkRow_def)
  note near = days_parameter_handling[where q = "storeQuery demoStore" and now = now0,
         OF u parseDays_minus5 neg(1)]
  note far = days_parameter_handling[where q = "storeQuery demoStore" and now = now0,
         OF u parseDays_far neg(2)]
  from near have "GET alice None now0 (storeQuery demoStore)
      = GET alice (Some ''7'') now0 (storeQuery demoStore)" by blast
  moreover from near have "GET alice (Some ''-5'') now0 (storeQuery demoStore)
      = Inr (buildStats initAccum [])"
    by (simp add: startUtc_now0_minus5 loop)
  moreover from far have "GET alice (Some ''-99999990'') now0 (storeQuery demoStore)
      = Inl InternalServerError"
    by (simp add: startUtc_now0_far)
  ultimately show ?thesis
    using parseDays_minus5 startUtc_now0_minus5 loop parseDays_far startUtc_now0_far by simp
qed

section \<open>The offset ceiling\<close>

text \<open>
  C8 (as amended). When the 100 pages at offsets 0, 1000, ..., 99000 are all full and
  none fails, the loop leaves by its bound \<open>offset < 100000\<close> and the handler answers
  with a success payload built from the accumulator that the loop body leaves after
  the rows of these 100 pages; rows beyond them are not counted and no error is
  reported.
\<close>

theorem ceiling_completes_normally:
  assumes "user auth = Some uid" and "userError auth = None"
      and "parseDays daysParam = Some d" and "startUtc now d = Some start"
      and full: "\<And>j. j < 100 \<Longrightarrow> error (q uid start (j * pageSize)) = None \<and>
                    data (q uid start (j * pageSize)) = Some (pg j) \<and> pageSize \<le> length (pg j)"
      and a: "a = foldl addRow initAccum (concat (map pg [0..<100]))"
  shows "GET auth daysParam now q = Inr (buildStats a (seriesOf start d (dailyMap a)))
       \<and> 100000 \<le> totalEvals (buildStats a (seriesOf start d (dailyMap a)))"
proof -
  have "pageLoop (q uid start) (0 * pageSize) initAccum
      = Inr (foldl addRow initAccum (concat (map pg [0..<100])))"
    by (rule pageLoop_full_pages[of "q uid start" pg 0 initAccum, OF full]) simp_all
  then have loop: "pageLoop (q uid start) 0 initAccum = Inr a"
    by (simp add: a)
  have "\<And>n. n \<le> 100 \<Longrightarrow> n * pageSize \<le> length (concat (map pg [0..<n]))"
  proof -
    fix n :: nat show "n \<le> 100 \<Longrightarrow> n * pageSize \<le> length (concat (map pg [0..<n]))"
    proof (induction n)
      case 0 show ?case by simp
    next
      case (Suc n)
      then have "n * pageSize \<le> length (concat (map pg [0..<n]))" by simp
      moreover have "pageSize \<le> length (pg n)" using full[of n] Suc.prems by simp
      ultimately show ?case by simp
    qed
  qed
  from this[of 100] have "100000 \<le> total a"
    by (simp add: a foldl_initAccum total_direct pageSize_def)
  with loop show ?thesis
    by (simp add: GET_authorized[OF assms(1-4)] buildStats_def Let_def)
qed

text \<open>
  A table with 100001 rows of the user: the answer is a success payload with
  \<open>totalEvals = 100000\<close>, not an error.
\<close>

theorem ceiling_counterexample:
  "length (matching ''alice'' 864000000 (rows (uniformStore 100001 noFault))) = 100001
   \<and> GET alice (Some ''1'') now0 (storeQuery (uniformStore 100001 noFault)) = Inr ceilingResponse
   \<and> totalEvals ceilingResponse = 100000"
proof -
  have g: "GET alice (Some ''1'') now0 (storeQuery (uniformStore 100001 noFault)) =
      Inr (buildStats (directAggregate (replicate 100000 (mkRow ''alice'' 864000005 80 100)))
            (seriesOf 864000000 1
               (dailyMap (directAggregate (replicate 100000 (mkRow ''alice'' 864000005 80 100))))))"
    by (rule GET_store[OF _ _ parseDays_1 startUtc_now0_1, of alice "''alice''"])
       (simp_all add: alice_def uniformStore_def noFault_def sorted_uniform[unfolded uniformStore_def, simplified])
  show ?thesis unfolding g
    by (simp add: direct_uniform matching_uniform buildStats_def seriesOf_def trendPoint_def
          toIsoDate_def msPerDay_def toFixed_def Math_round_def floor_rat_numeral floor_rat_one
          ceilingResponse_def)
qed

theorem ceiling_completes_normally_witness:
  "data (storeQuery (uniformStore 100001 noFault) ''alice'' 864000000 (99 * pageSize))
      = Some (replicate 1000 (mkRow ''alice'' 864000005 80 100))
   \<and> 100000 \<le> totalEvals (buildStats
        (foldl addRow initAccum (concat (map (\<lambda>j. replicate 1000 (mkRow ''alice'' 864000005 80 100)) [0..<100])))
        (seriesOf 864000000 1 (dailyMap
          (foldl addRow initAccum (concat (map (\<lambda>j. replicate 1000 (mkRow ''alice'' 864000005 80 100)) [0..<100]))))))
   \<and> GET alice (Some ''1'') now0 (storeQuery (uniformStore 100001 noFault)) =
       Inr (buildStats
        (foldl addRow initAccum (concat (map (\<lambda>j. replicate 1000 (mkRow ''alice'' 864000005 80 100)) [0..<100])))
        (seriesOf 864000000 1 (dailyMap
          (foldl addRow initAccum (concat (map (\<lambda>j. replicate 1000 (mkRow ''alice'' 864000005 80 100)) [0..<100]))))))"
proof -
  have u: "user alice = Some ''alice''" "userError alice = None" by (simp_all add: alice_def)
  have pages: "error (storeQuery (uniformStore 100001 noFault) ''alice'' 864000000 (j * pageSize)) = None \<and>
       data (storeQuery (uniformStore 100001 noFault) ''alice'' 864000000 (j * pageSize))
         = Some (replicate 1000 (mkRow ''alice'' 864000005 80 100)) \<and>
       pageSize \<le> length (replicate 1000 (mkRow ''alice'' 864000005 80 100))"
    if "j < 100" for j
  proof -
    have "min 1000 (100001 - j * 1000) = 1000" using that by simp
    then show ?thesis
      using sorted_uniform[of 864000000 100001 noFault]
      by (simp add: storeQuery_def pageSize_def uniformStore_def noFault_def)
  qed
  from ceiling_completes_normally
         [where q = "storeQuery (uniformStore 100001 noFault)"
            and pg = "\<lambda>j. replicate 1000 (mkRow ''alice'' 864000005 80 100)",
          OF u parseDays_1 startUtc_now0_1 pages refl]
       pages[of 99]
  show ?thesis by simp
qed

section \<open>The cache with a TTL of zero\<close>

text \<open>
  C9. A \<open>cachedFetch\<close> call with \<open>ttlMs \<le> 0\<close> performs the network call for its key,
  returns the network's answer with \<open>fromCache = false\<close>, and leaves the stored entries
  as they were.
\<close>

theorem ttl_zero_always_fetches:
  assumes "ttlMs \<le> 0"
  shows "fst (cachedFetch network now url options ttlMs c)
           = map_option (\<lambda>r. \<lparr> response = r, fromCache = False \<rparr>) (network (cacheKey url options))
       \<and> networkCalls (snd (cachedFetch network now url options ttlMs c))
           = networkCalls c @ [cacheKey url options]
       \<and> entries (snd (cachedFetch network now url options ttlMs c)) = entries c"
  using assms by (simp add: cachedFetch_def Let_def)

theorem ttl_zero_always_fetches_witness:
  "map_option expiresAt (entries warmCache (cacheKey ''/api/config'' None)) = Some 2000
   \<and> (1000::int) < 2000
   \<and> fst (cachedFetch freshNetwork 1000 ''/api/config'' None 0 warmCache)
        = Some \<lparr> response = \<lparr> resp_status = 200, resp_ok = True, resp_text = ''fresh'' \<rparr>,
                 fromCache = False \<rparr>
   \<and> networkCalls (snd (cachedFetch freshNetwork 1000 ''/api/config'' None 0 warmCache))
        = [cacheKey ''/api/config'' None]
   \<and> entries (snd (cachedFetch freshNetwork 1000 ''/api/config'' None 0 warmCache))
        = entries warmCache"
proof -
  have z: "(0::int) \<le> 0" by simp
  from ttl_zero_always_fetches[OF z, of freshNetwork 1000 "''/api/config''" None warmCache]
  show ?thesis by (simp add: freshNetwork_def warmCache_def)
qed

text \<open>
  The same call with a positive TTL is served from the stored entry, without a network
  call.
\<close>

lemma positive_ttl_reads_cache:
  "cachedFetch freshNetwork 1000 ''/api/config'' None 12000 warmCache
     = (Some \<lparr> response = \<lparr> resp_status = 200, resp_ok = True, resp_text = ''stored'' \<rparr>,
               fromCache = True \<rparr>, warmCache)"
  by (simp add: cachedFetch_def Let_def warmCache_def freshNetwork_def)

section \<open>Score buckets\<close>

text \<open>
  C10. In every successful response, with \<open>xs\<close> the rows the page loop ran its body
  over (\<open>countedRows\<close>): \<open>totalEvals\<close> is the number of these rows; \<open>excellent\<close>, \<open>good\<close>,
  \<open>fair\<close> and \<open>poor\<close> are the numbers of rows of \<open>xs\<close> with score \<open>\<ge> 90\<close>, in \<open>[70, 90)\<close>, in
  \<open>[50, 70)\<close> and \<open>< 50\<close>, so every counted row is in exactly one bucket and the four
  counters add up to \<open>totalEvals\<close>; and the success count from which the response's
  \<open>successRate\<close> is computed is the number of rows of \<open>xs\<close> with score \<open>\<ge> 70\<close>, which is
  \<open>excellent + good\<close>.
\<close>

theorem score_distribution_partition:
  assumes ok: "GET auth daysParam now q = Inr r"
    and u: "user auth = Some uid"
    and dp: "parseDays daysParam = Some d"
    and s: "startUtc now d = Some start"
    and xs: "xs = countedRows (q uid start) 0"
    and a: "a = foldl addRow initAccum xs"
  shows "pageLoop (q uid start) 0 initAccum = Inr a
       \<and> r = buildStats a (seriesOf start d (dailyMap a))
       \<and> totalEvals r = length xs
       \<and> excellent (statsDistribution r) = length (filter (\<lambda>e. score e \<ge> 90) xs)
       \<and> good (statsDistribution r) = length (filter (\<lambda>e. 70 \<le> score e \<and> score e < 90) xs)
       \<and> fair (statsDistribution r) = length (filter (\<lambda>e. 50 \<le> score e \<and> score e < 70) xs)
       \<and> poor (statsDistribution r) = length (filter (\<lambda>e. score e < 50) xs)
       \<and> excellent (statsDistribution r) + good (statsDistribution r)
           + fair (statsDistribution r) + poor (statsDistribution r) = totalEvals r
       \<and> successCount a = length (filter (\<lambda>e. score e \<ge> 70) xs)
       \<and> successCount a = excellent (statsDistribution r) + good (statsDistribution r)"
proof -
  from ok obtain uid' d' start' a' where u': "user auth = Some uid'"
    and d': "parseDays daysParam = Some d'" and s': "startUtc now d' = Some start'"
    and loop': "pageLoop (q uid' start') 0 initAccum = Inr a'"
    and r': "r = buildStats a' (seriesOf start' d' (dailyMap a'))"
    by (rule GET_Inr_D)
  from u u' have [simp]: "uid' = uid" by simp
  from dp d' have [simp]: "d' = d" by simp
  from s s' have [simp]: "start' = start" by simp
  have [simp]: "a' = a" using pageLoop_counted[OF loop'] by (simp add: a xs)
  have loop: "pageLoop (q uid start) 0 initAccum = Inr a" using loop' by simp
  have r: "r = buildStats a (seriesOf start d (dailyMap a))" using r' by simp
  have ad: "a = directAggregate xs" by (simp add: a foldl_initAccum)
  have t: "totalEvals r = length xs" by (simp add: r ad buildStats_def Let_def directAggregate_def)
  have sd: "statsDistribution r = scoreDistribution (directAggregate xs)"
    by (simp add: r ad buildStats_def Let_def)
  have e: "excellent (statsDistribution r) = length (filter (\<lambda>e. score e \<ge> 90) xs)"
    and g: "good (statsDistribution r) = length (filter (\<lambda>e. 70 \<le> score e \<and> score e < 90) xs)"
    and f: "fair (statsDistribution r) = length (filter (\<lambda>e. 50 \<le> score e \<and> score e < 70) xs)"
    and p: "poor (statsDistribution r) = length (filter (\<lambda>e. score e < 50) xs)"
    by (simp_all add: sd directAggregate_def)
  have sum: "excellent (statsDistribution r) + good (statsDistribution r)
           + fair (statsDistribution r) + poor (statsDistribution r) = totalEvals r"
    unfolding e g f p t by (rule buckets_partition)
  have sc: "successCount a = length (filter (\<lambda>e. score e \<ge> 70) xs)"
    by (simp add: ad directAggregate_def)
  have sc2: "successCount a = excellent (statsDistribution r) + good (statsDistribution r)"
    unfolding e g sc by (rule success_buckets)
  show ?thesis by (intro conjI; fact)
qed

text \<open>
  The theorem over a table with the scores 90, 89.99, 70, 69.99, 50, 49.99, 0 and 100:
  two rows in each bucket, four successes.
\<close>

theorem score_distribution_partition_witness:
  "GET alice (Some ''1'') now0 (storeQuery bandStore) = Inr bandResponse
   \<and> countedRows (storeQuery bandStore ''alice'' 864000000) 0 = bandRows
   \<and> map score bandRows = [90, 8999 / 100, 70, 6999 / 100, 50, 4999 / 100, 0, 100]
   \<and> statsDistribution bandResponse = \<lparr> excellent = 2, good = 2, fair = 2, poor = 2 \<rparr>
   \<and> excellent (statsDistribution bandResponse)
        = length (filter (\<lambda>e. score e \<ge> 90) bandRows)
   \<and> good (statsDistribution bandResponse)
        = length (filter (\<lambda>e. 70 \<le> score e \<and> score e < 90) bandRows)
   \<and> fair (statsDistribution bandResponse)
        = length (filter (\<lambda>e. 50 \<le> score e \<and> score e < 70) bandRows)
   \<and> poor (statsDistribution bandResponse)
        = length (filter (\<lambda>e. score e < 50) bandRows)
   \<and> successCount (foldl addRow initAccum bandRows) = 4
   \<and> successCount (foldl addRow initAccum bandRows)
        = excellent (statsDistribution bandResponse) + good (statsDistribution bandResponse)"
proof -
  have u: "user alice = Some ''alice''" by (simp add: alice_def)
  note t = score_distribution_partition[where q = "storeQuery bandStore",
      OF band_GET u parseDays_1 startUtc_now0_1 band_counted[symmetric] refl]
  have sc: "map score bandRows = [90, 8999 / 100, 70, 6999 / 100, 50, 4999 / 100, 0, 100]"
    by (simp add: bandRows_def mkRow_def)
  have sd: "statsDistribution bandResponse = \<lparr> excellent = 2, good = 2, fair = 2, poor = 2 \<rparr>"
    by (simp add: bandResponse_def)
  from t have e: "excellent (statsDistribution bandResponse)
        = length (filter (\<lambda>e. score e \<ge> 90) bandRows)" by blast
  from t have g: "good (statsDistribution bandResponse)
        = length (filter (\<lambda>e. 70 \<le> score e \<and> score e < 90) bandRows)" by blast
  from t have f: "fair (statsDistribution bandResponse)
        = length (filter (\<lambda>e. 50 \<le> score e \<and> score e < 70) bandRows)" by blast
  from t have p: "poor (statsDistribution bandResponse)
        = length (filter (\<lambda>e. score e < 50) bandRows)" by blast
  from t have s2: "successCount (foldl addRow initAccum bandRows)
        = excellent (statsDistribution bandResponse) + good (statsDistribution bandResponse)" by blast
  then have s4: "successCount (foldl addRow initAccum bandRows) = 4" by (simp add: sd)
  from band_GET band_counted sc sd e g f p s4 s2 show ?thesis by (intro conjI)
qed

end
